theory Spec2Isabelle
  imports Main
begin

section \<open>Data model\<close>

text \<open>
  The backend keeps its data in MongoDB collections accessed through Mongoose models.
  A collection is modelled as the list of its documents, a document as a record, an
  ObjectId as a natural number. ObjectIds are generated by the driver and are never
  reused; the model draws them from a counter kept beside the collections.
\<close>

type_synonym oid = nat

text \<open>\<^verbatim>\<open>models/Vote.js\<close>: the Vote schema.\<close>

record vote =
  vote_id :: oid
  vote_user :: oid
  vote_item :: oid
  vote_itemType :: string
  vote_value :: int
  vote_createdAt :: nat

text \<open>
  Modelled from the spec: \<^verbatim>\<open>models/Post.js\<close> and \<^verbatim>\<open>models/Comment.js\<close> are not among the
  source files. The records carry the fields that the route handlers read and write; the
  denormalised score of the spec is the field \<^verbatim>\<open>votes\<close>.
\<close>

record post =
  post_id :: oid
  post_title :: string
  post_content :: string
  post_author :: oid
  post_community :: string
  post_votes :: int
  post_isEdited :: bool
  post_createdAt :: nat

record comment =
  comment_id :: oid
  comment_content :: string
  comment_author :: oid
  comment_post :: oid
  comment_votes :: int
  comment_isEdited :: bool
  comment_createdAt :: nat

record state =
  posts :: "post list"
  comments :: "comment list"
  votes :: "vote list"
  communities :: "string list"
  oid_counter :: nat

text \<open>
  Errors thrown inside a handler's \<^verbatim>\<open>try\<close> block, and the responses a handler sends:
  the JSON bodies \<^verbatim>\<open>{ votes }\<close>, a post, a comment, the comment object with \<^verbatim>\<open>isAuthor\<close> and
  \<^verbatim>\<open>userVote\<close>, \<^verbatim>\<open>{ message }\<close>, the list of validation errors (status 400), and a status
  with a message. A handler body runs after the \<^verbatim>\<open>auth\<close> middleware has accepted the
  request; the authenticated user's id is an argument of the handler.
\<close>

datatype exn = CastError | DuplicateKey | ValidationError | DocumentNotFoundError

fun exn_kind :: "exn \<Rightarrow> string" where
  "exn_kind CastError = ''ObjectId''"
| "exn_kind DuplicateKey = ''''"
| "exn_kind ValidationError = ''''"
| "exn_kind DocumentNotFoundError = ''''"

datatype response =
    Res_votes int
  | Res_post post
  | Res_comment comment
  | Res_commentObj comment bool int
  | Res_message string
  | Res_errors "string list"
  | Res_status nat string

section \<open>Store primitives\<close>

text \<open>\<^verbatim>\<open>Model.findById(id)\<close>: a parameter that is no ObjectId (\<open>None\<close>) raises a CastError.\<close>

definition Post_findById :: "state \<Rightarrow> oid option \<Rightarrow> exn + post option" where
  "Post_findById st idp =
     (case idp of
        None \<Rightarrow> Inl CastError
      | Some i \<Rightarrow> Inr (find (\<lambda>p. post_id p = i) (posts st)))"

definition Comment_findById :: "state \<Rightarrow> oid option \<Rightarrow> exn + comment option" where
  "Comment_findById st idp =
     (case idp of
        None \<Rightarrow> Inl CastError
      | Some i \<Rightarrow> Inr (find (\<lambda>c. comment_id c = i) (comments st)))"

text \<open>\<^verbatim>\<open>Vote.findOne({ user, item, itemType })\<close>.\<close>

definition Vote_findOne :: "state \<Rightarrow> oid \<Rightarrow> oid \<Rightarrow> string \<Rightarrow> vote option" where
  "Vote_findOne st u i k =
     find (\<lambda>v. vote_user v = u \<and> vote_item v = i \<and> vote_itemType v = k) (votes st)"

text \<open>Schema validation of a Vote: the two \<^verbatim>\<open>enum\<close> constraints of the schema.\<close>

definition Vote_validate :: "vote \<Rightarrow> bool" where
  "Vote_validate v \<longleftrightarrow>
     vote_itemType v \<in> {''post'', ''comment''} \<and> vote_value v \<in> {-1, 1}"

text \<open>
  \<^verbatim>\<open>save()\<close> of a new Vote: validation, then the insert, which the unique compound index
  \<^verbatim>\<open>{ user: 1, item: 1 }\<close> rejects when a vote of the same user on the same item is stored.
\<close>

definition Vote_insert :: "state \<Rightarrow> vote \<Rightarrow> exn + state" where
  "Vote_insert st v =
     (if \<not> Vote_validate v then Inl ValidationError
      else if \<exists>w \<in> set (votes st). vote_user w = vote_user v \<and> vote_item w = vote_item v
        then Inl DuplicateKey
      else Inr (st\<lparr>votes := votes st @ [v]\<rparr>))"

text \<open>
  \<^verbatim>\<open>save()\<close> of a Vote that was loaded and whose \<^verbatim>\<open>value\<close> was assigned: validation, then an
  update of that field of the stored document with the same \<^verbatim>\<open>_id\<close>. When no stored
  document has that \<^verbatim>\<open>_id\<close>, Mongoose raises a DocumentNotFoundError; this cannot happen
  while handlers run one after another.
\<close>

definition Vote_save :: "state \<Rightarrow> vote \<Rightarrow> exn + state" where
  "Vote_save st v =
     (if \<not> Vote_validate v then Inl ValidationError
      else if \<not> (\<exists>w \<in> set (votes st). vote_id w = vote_id v) then Inl DocumentNotFoundError
      else Inr (st\<lparr>votes :=
             map (\<lambda>w. if vote_id w = vote_id v then w\<lparr>vote_value := vote_value v\<rparr> else w)
               (votes st)\<rparr>))"

text \<open>\<^verbatim>\<open>deleteOne\<close>: removes the first document that matches.\<close>

fun delete_one :: "('a \<Rightarrow> bool) \<Rightarrow> 'a list \<Rightarrow> 'a list" where
  "delete_one P [] = []"
| "delete_one P (x # xs) = (if P x then xs else x # delete_one P xs)"

text \<open>
  \<^verbatim>\<open>doc.remove()\<close>, as Mongoose 5 and 6 provide it: deletes the stored document with the
  same \<^verbatim>\<open>_id\<close>.
\<close>

definition Vote_remove :: "state \<Rightarrow> vote \<Rightarrow> state" where
  "Vote_remove st v = st\<lparr>votes := delete_one (\<lambda>w. vote_id w = vote_id v) (votes st)\<rparr>"

definition Post_remove :: "state \<Rightarrow> post \<Rightarrow> state" where
  "Post_remove st p = st\<lparr>posts := delete_one (\<lambda>q. post_id q = post_id p) (posts st)\<rparr>"

definition Comment_remove :: "state \<Rightarrow> comment \<Rightarrow> state" where
  "Comment_remove st c =
     st\<lparr>comments := delete_one (\<lambda>d. comment_id d = comment_id c) (comments st)\<rparr>"

text \<open>\<^verbatim>\<open>Vote.deleteMany({ item, itemType })\<close> and \<^verbatim>\<open>Comment.deleteMany({ post })\<close>.\<close>

definition Vote_deleteMany :: "state \<Rightarrow> oid \<Rightarrow> string \<Rightarrow> state" where
  "Vote_deleteMany st i k =
     st\<lparr>votes := filter (\<lambda>v. \<not> (vote_item v = i \<and> vote_itemType v = k)) (votes st)\<rparr>"

definition Comment_deleteMany :: "state \<Rightarrow> oid \<Rightarrow> state" where
  "Comment_deleteMany st i = st\<lparr>comments := filter (\<lambda>c. comment_post c \<noteq> i) (comments st)\<rparr>"

text \<open>
  \<^verbatim>\<open>save()\<close> of a loaded Post or Comment after an assignment to \<^verbatim>\<open>votes\<close>: the handler's
  local value is written to the stored document with the same \<^verbatim>\<open>_id\<close>.
\<close>

definition Post_save_votes :: "state \<Rightarrow> post \<Rightarrow> exn + state" where
  "Post_save_votes st p =
     (if \<not> (\<exists>q \<in> set (posts st). post_id q = post_id p) then Inl DocumentNotFoundError
      else Inr (st\<lparr>posts :=
             map (\<lambda>q. if post_id q = post_id p then q\<lparr>post_votes := post_votes p\<rparr> else q)
               (posts st)\<rparr>))"

definition Comment_save_votes :: "state \<Rightarrow> comment \<Rightarrow> exn + state" where
  "Comment_save_votes st c =
     (if \<not> (\<exists>d \<in> set (comments st). comment_id d = comment_id c) then Inl DocumentNotFoundError
      else Inr (st\<lparr>comments :=
             map (\<lambda>d. if comment_id d = comment_id c then d\<lparr>comment_votes := comment_votes c\<rparr>
                      else d)
               (comments st)\<rparr>))"

section \<open>The vote handlers\<close>

text \<open>The \<^verbatim>\<open>catch\<close> block shared by the handlers of \<^verbatim>\<open>routes/posts.js\<close>.\<close>

definition catch_post :: "exn \<Rightarrow> response" where
  "catch_post err =
     (if exn_kind err = ''ObjectId'' then Res_status 404 ''Post not found''
      else Res_status 500 ''Server error'')"

definition catch_comment :: "exn \<Rightarrow> response" where
  "catch_comment err =
     (if exn_kind err = ''ObjectId'' then Res_status 404 ''Comment not found''
      else Res_status 500 ''Server error'')"

text \<open>
  The vote-record part of both vote handlers (\<^verbatim>\<open>routes/posts.js\<close> lines 398--423 and
  lines 112--137 of the comments router, \<^verbatim>\<open>unnamed/part_000\<close>), which differ only in the
  item and its type string.
  \<open>existing\<close> is the result of the earlier \<^verbatim>\<open>Vote.findOne\<close>; the result is the new state and
  \<^verbatim>\<open>voteChange\<close>, or the error of the one write it makes, in which case the collections
  are as before. \<^verbatim>\<open>voteType\<close> is a number of the JSON body; the handlers compare it with
  \<^verbatim>\<open>[1, 0, -1].includes\<close> and \<^verbatim>\<open>===\<close>, so it is modelled as an integer.
\<close>

definition cast_vote ::
    "state \<Rightarrow> oid \<Rightarrow> oid \<Rightarrow> string \<Rightarrow> nat \<Rightarrow> int \<Rightarrow> vote option \<Rightarrow> exn + (state \<times> int)" where
  "cast_vote st user item itemType now voteType existing =
     (case existing of
        Some v \<Rightarrow>
          (let voteChange = voteType - vote_value v in
           if voteType = 0 then Inr (Vote_remove st v, voteChange)
           else (case Vote_save st (v\<lparr>vote_value := voteType\<rparr>) of
                   Inl e \<Rightarrow> Inl e
                 | Inr st' \<Rightarrow> Inr (st', voteChange)))
      | None \<Rightarrow>
          if voteType \<noteq> 0 then
            (let v = \<lparr>vote_id = oid_counter st, vote_user = user, vote_item = item,
                      vote_itemType = itemType, vote_value = voteType, vote_createdAt = now\<rparr>
             in case Vote_insert (st\<lparr>oid_counter := Suc (oid_counter st)\<rparr>) v of
                  Inl e \<Rightarrow> Inl e
                | Inr st' \<Rightarrow> Inr (st', voteType))
          else Inr (st, 0))"

text \<open>
  \<^verbatim>\<open>POST /api/posts/:id/vote\<close>. The handler is written in two parts, split where it has read
  the post and the user's vote and has not yet written: \<open>vote_post_lookup\<close> is lines
  379--396, \<open>vote_post_apply\<close> lines 398--429 on the documents read. \<open>vote_post\<close> runs both
  on one state, which is the handler when no other request runs in between.
\<close>

definition vote_post_lookup ::
    "state \<Rightarrow> oid \<Rightarrow> oid option \<Rightarrow> int \<Rightarrow> response + (post \<times> vote option)" where
  "vote_post_lookup st user idp voteType =
     (if voteType \<notin> {1, 0, -1} then Inl (Res_status 400 ''Invalid vote type'')
      else case Post_findById st idp of
             Inl e \<Rightarrow> Inl (catch_post e)
           | Inr None \<Rightarrow> Inl (Res_status 404 ''Post not found'')
           | Inr (Some p) \<Rightarrow> Inr (p, Vote_findOne st user (post_id p) ''post''))"

definition vote_post_apply ::
    "state \<Rightarrow> oid \<Rightarrow> nat \<Rightarrow> int \<Rightarrow> post \<times> vote option \<Rightarrow> state \<times> response" where
  "vote_post_apply st user now voteType docs =
     (case docs of (p, existing) \<Rightarrow>
        (case cast_vote st user (post_id p) ''post'' now voteType existing of
           Inl e \<Rightarrow> (st, catch_post e)
         | Inr (st1, voteChange) \<Rightarrow>
             (let p' = p\<lparr>post_votes := post_votes p + voteChange\<rparr> in
              case Post_save_votes st1 p' of
                Inl e \<Rightarrow> (st1, catch_post e)
              | Inr st2 \<Rightarrow> (st2, Res_votes (post_votes p')))))"

definition vote_post :: "state \<Rightarrow> oid \<Rightarrow> nat \<Rightarrow> oid option \<Rightarrow> int \<Rightarrow> state \<times> response" where
  "vote_post st user now idp voteType =
     (case vote_post_lookup st user idp voteType of
        Inl r \<Rightarrow> (st, r)
      | Inr docs \<Rightarrow> vote_post_apply st user now voteType docs)"

text \<open>
  \<^verbatim>\<open>POST /api/comments/:id/vote\<close> (\<^verbatim>\<open>unnamed/part_000\<close> lines 91--153), in the same two
  parts.
\<close>

definition vote_comment_lookup ::
    "state \<Rightarrow> oid \<Rightarrow> oid option \<Rightarrow> int \<Rightarrow> response + (comment \<times> vote option)" where
  "vote_comment_lookup st user idp voteType =
     (if voteType \<notin> {1, 0, -1} then Inl (Res_status 400 ''Invalid vote type'')
      else case Comment_findById st idp of
             Inl e \<Rightarrow> Inl (catch_comment e)
           | Inr None \<Rightarrow> Inl (Res_status 404 ''Comment not found'')
           | Inr (Some c) \<Rightarrow> Inr (c, Vote_findOne st user (comment_id c) ''comment''))"

definition vote_comment_apply ::
    "state \<Rightarrow> oid \<Rightarrow> nat \<Rightarrow> int \<Rightarrow> comment \<times> vote option \<Rightarrow> state \<times> response" where
  "vote_comment_apply st user now voteType docs =
     (case docs of (c, existing) \<Rightarrow>
        (case cast_vote st user (comment_id c) ''comment'' now voteType existing of
           Inl e \<Rightarrow> (st, catch_comment e)
         | Inr (st1, voteChange) \<Rightarrow>
             (let c' = c\<lparr>comment_votes := comment_votes c + voteChange\<rparr> in
              case Comment_save_votes st1 c' of
                Inl e \<Rightarrow> (st1, catch_comment e)
              | Inr st2 \<Rightarrow> (st2, Res_votes (comment_votes c')))))"

definition vote_comment :: "state \<Rightarrow> oid \<Rightarrow> nat \<Rightarrow> oid option \<Rightarrow> int \<Rightarrow> state \<times> response" where
  "vote_comment st user now idp voteType =
     (case vote_comment_lookup st user idp voteType of
        Inl r \<Rightarrow> (st, r)
      | Inr docs \<Rightarrow> vote_comment_apply st user now voteType docs)"

section \<open>Creation, editing and deletion of items\<close>

text \<open>
  \<^verbatim>\<open>validationResult(req)\<close> is computed by the express-validator middleware before the
  handler body runs; its list of messages \<open>verrs\<close> is an input of the handler.
\<close>

text \<open>\<^verbatim>\<open>POST /api/posts\<close> (lines 239--284): create a post, then the author's own upvote.\<close>

definition create_post ::
    "state \<Rightarrow> oid \<Rightarrow> nat \<Rightarrow> string list \<Rightarrow> string \<Rightarrow> string \<Rightarrow> string \<Rightarrow> state \<times> response" where
  "create_post st user now verrs title content community =
     (if verrs \<noteq> [] then (st, Res_errors verrs)
      else if community \<notin> set (communities st) then (st, Res_status 404 ''Community not found'')
      else
        (let newPost = \<lparr>post_id = oid_counter st, post_title = title, post_content = content,
                        post_author = user, post_community = community, post_votes = 0,
                        post_isEdited = False, post_createdAt = now\<rparr>;
             st1 = st\<lparr>posts := posts st @ [newPost], oid_counter := Suc (oid_counter st)\<rparr>;
             newVote = \<lparr>vote_id = oid_counter st1, vote_user = user, vote_item = post_id newPost,
                        vote_itemType = ''post'', vote_value = 1, vote_createdAt = now\<rparr>
         in case Vote_insert (st1\<lparr>oid_counter := Suc (oid_counter st1)\<rparr>) newVote of
              Inl e \<Rightarrow> (st1, Res_status 500 ''Server error'')
            | Inr st2 \<Rightarrow>
                (let p = newPost\<lparr>post_votes := 1\<rparr> in
                 case Post_save_votes st2 p of
                   Inl e \<Rightarrow> (st2, Res_status 500 ''Server error'')
                 | Inr st3 \<Rightarrow> (st3, Res_post p))))"

text \<open>
  \<^verbatim>\<open>POST /api/posts/:id/comments\<close> (lines 505--554): the comment is stored with
  \<^verbatim>\<open>votes: 1\<close>, then the author's own upvote is stored.
\<close>

definition create_comment ::
    "state \<Rightarrow> oid \<Rightarrow> nat \<Rightarrow> string list \<Rightarrow> oid option \<Rightarrow> string \<Rightarrow> state \<times> response" where
  "create_comment st user now verrs idp content =
     (if verrs \<noteq> [] then (st, Res_errors verrs)
      else case Post_findById st idp of
             Inl e \<Rightarrow> (st, catch_post e)
           | Inr None \<Rightarrow> (st, Res_status 404 ''Post not found'')
           | Inr (Some p) \<Rightarrow>
               (let newComment = \<lparr>comment_id = oid_counter st, comment_content = content,
                                  comment_author = user, comment_post = post_id p,
                                  comment_votes = 1, comment_isEdited = False,
                                  comment_createdAt = now\<rparr>;
                    st1 = st\<lparr>comments := comments st @ [newComment],
                             oid_counter := Suc (oid_counter st)\<rparr>;
                    newVote = \<lparr>vote_id = oid_counter st1, vote_user = user,
                               vote_item = comment_id newComment, vote_itemType = ''comment'',
                               vote_value = 1, vote_createdAt = now\<rparr>
                in case Vote_insert (st1\<lparr>oid_counter := Suc (oid_counter st1)\<rparr>) newVote of
                     Inl e \<Rightarrow> (st1, catch_post e)
                   | Inr st2 \<Rightarrow> (st2, Res_commentObj newComment True 1)))"

text \<open>
  \<^verbatim>\<open>PUT /api/posts/:id\<close> (lines 296--334) and \<^verbatim>\<open>PUT /api/comments/:id\<close>
  (\<^verbatim>\<open>unnamed/part_000\<close> lines 17--51).
\<close>

definition update_post ::
    "state \<Rightarrow> oid \<Rightarrow> string list \<Rightarrow> oid option \<Rightarrow> string \<Rightarrow> string \<Rightarrow> state \<times> response" where
  "update_post st user verrs idp title content =
     (if verrs \<noteq> [] then (st, Res_errors verrs)
      else case Post_findById st idp of
             Inl e \<Rightarrow> (st, catch_post e)
           | Inr None \<Rightarrow> (st, Res_status 404 ''Post not found'')
           | Inr (Some p) \<Rightarrow>
               if post_author p \<noteq> user then (st, Res_status 401 ''User not authorized'')
               else
                 (let p' = p\<lparr>post_title := title, post_content := content,
                              post_isEdited := True\<rparr>
                  in (st\<lparr>posts :=
                         map (\<lambda>q. if post_id q = post_id p
                                   then q\<lparr>post_title := title, post_content := content,
                                           post_isEdited := True\<rparr>
                                   else q) (posts st)\<rparr>,
                      Res_post p')))"

definition update_comment ::
    "state \<Rightarrow> oid \<Rightarrow> string list \<Rightarrow> oid option \<Rightarrow> string \<Rightarrow> state \<times> response" where
  "update_comment st user verrs idp content =
     (if verrs \<noteq> [] then (st, Res_errors verrs)
      else case Comment_findById st idp of
             Inl e \<Rightarrow> (st, catch_comment e)
           | Inr None \<Rightarrow> (st, Res_status 404 ''Comment not found'')
           | Inr (Some c) \<Rightarrow>
               if comment_author c \<noteq> user then (st, Res_status 401 ''User not authorized'')
               else
                 (let c' = c\<lparr>comment_content := content, comment_isEdited := True\<rparr>
                  in (st\<lparr>comments :=
                         map (\<lambda>d. if comment_id d = comment_id c
                                   then d\<lparr>comment_content := content, comment_isEdited := True\<rparr>
                                   else d) (comments st)\<rparr>,
                      Res_comment c')))"

text \<open>
  \<^verbatim>\<open>DELETE /api/posts/:id\<close> (lines 340--372): the comments of the post, the votes on the
  post, the post.
\<close>

definition delete_post :: "state \<Rightarrow> oid \<Rightarrow> oid option \<Rightarrow> state \<times> response" where
  "delete_post st user idp =
     (case Post_findById st idp of
        Inl e \<Rightarrow> (st, catch_post e)
      | Inr None \<Rightarrow> (st, Res_status 404 ''Post not found'')
      | Inr (Some p) \<Rightarrow>
          if post_author p \<noteq> user then (st, Res_status 401 ''User not authorized'')
          else
            (let st1 = Comment_deleteMany st (post_id p);
                 st2 = Vote_deleteMany st1 (post_id p) ''post'';
                 st3 = Post_remove st2 p
             in (st3, Res_message ''Post deleted'')))"

text \<open>
  \<^verbatim>\<open>DELETE /api/comments/:id\<close> (\<^verbatim>\<open>unnamed/part_000\<close> lines 57--86): the votes on the
  comment, the comment.
\<close>

definition delete_comment :: "state \<Rightarrow> oid \<Rightarrow> oid option \<Rightarrow> state \<times> response" where
  "delete_comment st user idp =
     (case Comment_findById st idp of
        Inl e \<Rightarrow> (st, catch_comment e)
      | Inr None \<Rightarrow> (st, Res_status 404 ''Comment not found'')
      | Inr (Some c) \<Rightarrow>
          if comment_author c \<noteq> user then (st, Res_status 401 ''User not authorized'')
          else
            (let st1 = Vote_deleteMany st (comment_id c) ''comment'';
                 st2 = Comment_remove st1 c
             in (st2, Res_message ''Comment deleted'')))"

section \<open>Karma\<close>

text \<open>\<^verbatim>\<open>Post.find({ author })\<close> and \<^verbatim>\<open>Comment.find({ author })\<close>.\<close>

definition Post_find_author :: "state \<Rightarrow> oid \<Rightarrow> post list" where
  "Post_find_author st u = filter (\<lambda>p. post_author p = u) (posts st)"

definition Comment_find_author :: "state \<Rightarrow> oid \<Rightarrow> comment list" where
  "Comment_find_author st u = filter (\<lambda>c. comment_author c = u) (comments st)"

text \<open>
  \<^verbatim>\<open>calculateKarma\<close> (\<^verbatim>\<open>routes/users.js\<close> lines 139--154). Its two reads are inside a
  \<^verbatim>\<open>try\<close> whose \<^verbatim>\<open>catch\<close> returns 0, so the function is given the outcome of each read:
  \<open>Inl\<close> when the read throws.
\<close>

definition calculateKarma :: "exn + post list \<Rightarrow> exn + comment list \<Rightarrow> int" where
  "calculateKarma postsRead commentsRead =
     (case postsRead of
        Inl err \<Rightarrow> 0
      | Inr ps \<Rightarrow>
          (let postKarma = foldl (\<lambda>total p. total + post_votes p) 0 ps in
           case commentsRead of
             Inl err \<Rightarrow> 0
           | Inr cs \<Rightarrow>
               (let commentKarma = foldl (\<lambda>total c. total + comment_votes c) 0 cs in
                postKarma + commentKarma)))"

section \<open>Invariants of the store\<close>

text \<open>The sum of the values of the Vote records that reference item \<open>i\<close> of kind \<open>k\<close>.\<close>

definition votes_for :: "state \<Rightarrow> oid \<Rightarrow> string \<Rightarrow> vote list" where
  "votes_for st i k = filter (\<lambda>v. vote_item v = i \<and> vote_itemType v = k) (votes st)"



text \<open>
  Well-formedness of a store: \<^verbatim>\<open>_id\<close> is a key of each collection, every ObjectId in use
  was drawn from the counter, the unique index of the Vote collection holds, and every
  stored Vote passed the schema validation.
\<close>

definition ids_distinct :: "state \<Rightarrow> bool" where
  "ids_distinct st \<longleftrightarrow>
     distinct (map post_id (posts st)) \<and>
     distinct (map comment_id (comments st)) \<and>
     distinct (map vote_id (votes st))"

definition ids_bounded :: "state \<Rightarrow> bool" where
  "ids_bounded st \<longleftrightarrow>
     (\<forall>p \<in> set (posts st). post_id p < oid_counter st) \<and>
     (\<forall>c \<in> set (comments st). comment_id c < oid_counter st) \<and>
     (\<forall>v \<in> set (votes st). vote_id v < oid_counter st \<and> vote_item v < oid_counter st)"

definition unique_index :: "state \<Rightarrow> bool" where
  "unique_index st \<longleftrightarrow> distinct (map (\<lambda>v. (vote_user v, vote_item v)) (votes st))"

definition votes_valid :: "state \<Rightarrow> bool" where
  "votes_valid st \<longleftrightarrow> (\<forall>v \<in> set (votes st). Vote_validate v)"

text \<open>
  The two properties of the Vote collection by themselves: every value is \<open>-1\<close> or \<open>+1\<close>,
  and no two records have the same user and item.
\<close>

definition votes_ok :: "vote list \<Rightarrow> bool" where
  "votes_ok xs \<longleftrightarrow>
     (\<forall>v \<in> set xs. vote_value v = - 1 \<or> vote_value v = 1) \<and>
     distinct (map (\<lambda>v. (vote_user v, vote_item v)) xs)"

definition wf_store :: "state \<Rightarrow> bool" where
  "wf_store st \<longleftrightarrow> ids_distinct st \<and> ids_bounded st \<and> unique_index st \<and> votes_valid st"

section \<open>Requests handled one after another\<close>

text \<open>
  The requests of the routers modelled above, with the authenticated user, the time of
  the request where a document is created, and the request's parameters.
\<close>

datatype request =
    Create_post oid nat "string list" string string string
  | Update_post oid "string list" "oid option" string string
  | Delete_post oid "oid option"
  | Vote_post oid nat "oid option" int
  | Create_comment oid nat "string list" "oid option" string
  | Update_comment oid "string list" "oid option" string
  | Delete_comment oid "oid option"
  | Vote_comment oid nat "oid option" int

fun handle :: "state \<Rightarrow> request \<Rightarrow> state \<times> response" where
  "handle st (Create_post user now verrs title content community) =
     create_post st user now verrs title content community"
| "handle st (Update_post user verrs idp title content) =
     update_post st user verrs idp title content"
| "handle st (Delete_post user idp) = delete_post st user idp"
| "handle st (Vote_post user now idp voteType) = vote_post st user now idp voteType"
| "handle st (Create_comment user now verrs idp content) =
     create_comment st user now verrs idp content"
| "handle st (Update_comment user verrs idp content) =
     update_comment st user verrs idp content"
| "handle st (Delete_comment user idp) = delete_comment st user idp"
| "handle st (Vote_comment user now idp voteType) = vote_comment st user now idp voteType"

fun run_sequential :: "state \<Rightarrow> request list \<Rightarrow> state" where
  "run_sequential st [] = st"
| "run_sequential st (rq # rqs) = run_sequential (fst (handle st rq)) rqs"

definition init_state :: "string list \<Rightarrow> state" where
  "init_state cs = \<lparr>posts = [], comments = [], votes = [], communities = cs, oid_counter = 0\<rparr>"

text \<open>
  The states the store can be in when every handler runs to its end before the next one
  starts. The communities are maintained by another router, which writes no post, comment
  or vote.
\<close>

inductive reachable :: "state \<Rightarrow> bool" where
  reachable_init: "reachable (init_state cs)"
| reachable_communities: "reachable st \<Longrightarrow> reachable (st\<lparr>communities := cs\<rparr>)"
| reachable_handle: "reachable st \<Longrightarrow> reachable (fst (handle st rq))"

section \<open>Vote requests on posts that overlap in time\<close>

text \<open>
  A handler gives way to other requests at each \<^verbatim>\<open>await\<close>. A vote request on a post is
  modelled as a task in one of three stages: not started, holding the documents it has
  read (after \<open>vote_post_lookup\<close>), and finished with its response. A step runs one part
  of one task without interruption; the code may be interrupted at more places than
  that, so every schedule of tasks here is a schedule of the code.
\<close>

datatype task =
    Start oid "oid option" int
  | Loaded oid int "post \<times> vote option"
  | Finished response

fun task_step :: "nat \<Rightarrow> state \<Rightarrow> task \<Rightarrow> state \<times> task" where
  "task_step now st (Start user idp voteType) =
     (case vote_post_lookup st user idp voteType of
        Inl r \<Rightarrow> (st, Finished r)
      | Inr docs \<Rightarrow> (st, Loaded user voteType docs))"
| "task_step now st (Loaded user voteType docs) =
     (case vote_post_apply st user now voteType docs of (st', r) \<Rightarrow> (st', Finished r))"
| "task_step now st (Finished r) = (st, Finished r)"

text \<open>A schedule is the list of the indices of the tasks that take the next step.\<close>

fun run_schedule :: "nat \<Rightarrow> nat list \<Rightarrow> state \<times> task list \<Rightarrow> state \<times> task list" where
  "run_schedule now [] cfg = cfg"
| "run_schedule now (i # sched) (st, ts) =
     (if i < length ts
      then (case task_step now st (ts ! i) of
              (st', t') \<Rightarrow> run_schedule now sched (st', ts[i := t']))
      else run_schedule now sched (st, ts))"


section \<open>Auxiliary facts about lists and the store primitives\<close>

lemma foldl_add_sum: "foldl (\<lambda>total x. total + f x) (a::int) xs = a + sum_list (map f xs)"
  by (induction xs arbitrary: a) simp_all

lemma find_SomeD: "find P xs = Some x \<Longrightarrow> x \<in> set xs \<and> P x"
  by (induction xs) (auto split: if_splits)

lemma delete_one_filter:
  "distinct (map f xs) \<Longrightarrow> delete_one (\<lambda>x. f x = a) xs = filter (\<lambda>x. f x \<noteq> a) xs"
proof (induction xs)
  case Nil
  then show ?case by simp
next
  case (Cons x xs)
  show ?case
  proof (cases "f x = a")
    case True
    with Cons.prems have "\<forall>y \<in> set xs. f y \<noteq> a" by (auto simp: image_iff)
    then have "filter (\<lambda>x. f x \<noteq> a) xs = xs" by (simp add: filter_id_conv)
    with True show ?thesis by simp
  next
    case False
    with Cons show ?thesis by simp
  qed
qed



lemma cast_vote_frame:
  assumes "cast_vote st u i k now t ex = Inr (st', d)"
  shows "posts st' = posts st \<and> comments st' = comments st \<and> communities st' = communities st
     \<and> oid_counter st \<le> oid_counter st'"
  using assms
  by (auto simp: cast_vote_def Vote_remove_def Vote_save_def Vote_insert_def Let_def
      split: option.splits if_splits sum.splits)



lemma map_key_update:
  assumes "\<And>w. f (g w) = f w"
  shows "f \<circ> (\<lambda>w. if c w then g w else w) = f"
  by (auto simp: fun_eq_iff assms)


lemma Post_findById_SomeD:
  "Post_findById st idp = Inr (Some p) \<Longrightarrow> p \<in> set (posts st) \<and> idp = Some (post_id p)"
  using find_SomeD [of "\<lambda>q. post_id q = the idp" "posts st" p]
  by (auto simp: Post_findById_def split: option.splits)

lemma Comment_findById_SomeD:
  "Comment_findById st idp = Inr (Some c) \<Longrightarrow> c \<in> set (comments st) \<and> idp = Some (comment_id c)"
  using find_SomeD [of "\<lambda>d. comment_id d = the idp" "comments st" c]
  by (auto simp: Comment_findById_def split: option.splits)




lemma create_post_result:
  assumes "ids_bounded st" and "verrs = []" and "community \<in> set (communities st)"
  shows "create_post st user now verrs title content community =
     (\<lparr>posts = posts st @ [\<lparr>post_id = oid_counter st, post_title = title,
          post_content = content, post_author = user, post_community = community,
          post_votes = 1, post_isEdited = False, post_createdAt = now\<rparr>],
       comments = comments st,
       votes = votes st @ [\<lparr>vote_id = Suc (oid_counter st), vote_user = user,
          vote_item = oid_counter st, vote_itemType = ''post'', vote_value = 1,
          vote_createdAt = now\<rparr>],
       communities = communities st,
       oid_counter = Suc (Suc (oid_counter st))\<rparr>,
      Res_post \<lparr>post_id = oid_counter st, post_title = title,
          post_content = content, post_author = user, post_community = community,
          post_votes = 1, post_isEdited = False, post_createdAt = now\<rparr>)"
proof -
  from assms(1) have "\<forall>w \<in> set (votes st). vote_item w \<noteq> oid_counter st"
    and "\<forall>q \<in> set (posts st). post_id q \<noteq> oid_counter st"
    by (auto simp: ids_bounded_def)
  then have "\<And>x. map (\<lambda>q. if post_id q = oid_counter st then q\<lparr>post_votes := x\<rparr> else q)
      (posts st) = posts st"
    by (simp add: map_idI)
  with assms \<open>\<forall>w \<in> set (votes st). vote_item w \<noteq> oid_counter st\<close> show ?thesis
    by (simp add: create_post_def Vote_insert_def Vote_validate_def Post_save_votes_def Let_def)
qed

lemma create_comment_result:
  assumes "ids_bounded st" and "verrs = []" and "Post_findById st idp = Inr (Some p)"
  shows "create_comment st user now verrs idp content =
     (\<lparr>posts = posts st,
       comments = comments st @ [\<lparr>comment_id = oid_counter st, comment_content = content,
          comment_author = user, comment_post = post_id p, comment_votes = 1,
          comment_isEdited = False, comment_createdAt = now\<rparr>],
       votes = votes st @ [\<lparr>vote_id = Suc (oid_counter st), vote_user = user,
          vote_item = oid_counter st, vote_itemType = ''comment'', vote_value = 1,
          vote_createdAt = now\<rparr>],
       communities = communities st,
       oid_counter = Suc (Suc (oid_counter st))\<rparr>,
      Res_commentObj \<lparr>comment_id = oid_counter st, comment_content = content,
          comment_author = user, comment_post = post_id p, comment_votes = 1,
          comment_isEdited = False, comment_createdAt = now\<rparr> True 1)"
proof -
  from assms(1) have "\<forall>w \<in> set (votes st). vote_item w \<noteq> oid_counter st"
    by (auto simp: ids_bounded_def)
  with assms show ?thesis
    by (simp add: create_comment_def Vote_insert_def Vote_validate_def Let_def)
qed






lemma delete_post_result:
  assumes "ids_distinct st" and "Post_findById st idp = Inr (Some p)" and "post_author p = user"
  shows "delete_post st user idp =
     (\<lparr>posts = filter (\<lambda>q. post_id q \<noteq> post_id p) (posts st),
       comments = filter (\<lambda>c. comment_post c \<noteq> post_id p) (comments st),
       votes = filter (\<lambda>v. \<not> (vote_item v = post_id p \<and> vote_itemType v = ''post''))
                 (votes st),
       communities = communities st,
       oid_counter = oid_counter st\<rparr>,
      Res_message ''Post deleted'')"
  using assms
  by (simp add: delete_post_def Comment_deleteMany_def Vote_deleteMany_def Post_remove_def
      ids_distinct_def delete_one_filter Let_def)

lemma delete_comment_result:
  assumes "ids_distinct st" and "Comment_findById st idp = Inr (Some c)"
    and "comment_author c = user"
  shows "delete_comment st user idp =
     (\<lparr>posts = posts st,
       comments = filter (\<lambda>d. comment_id d \<noteq> comment_id c) (comments st),
       votes = filter (\<lambda>v. \<not> (vote_item v = comment_id c \<and> vote_itemType v = ''comment''))
                 (votes st),
       communities = communities st,
       oid_counter = oid_counter st\<rparr>,
      Res_message ''Comment deleted'')"
  using assms
  by (simp add: delete_comment_def Vote_deleteMany_def Comment_remove_def
      ids_distinct_def delete_one_filter Let_def)









lemma reachable_run: "reachable st \<Longrightarrow> reachable (run_sequential st rqs)"
  by (induction rqs arbitrary: st) (simp_all add: reachable_handle)

lemma distinct_map_count:
  "distinct (map f xs) \<Longrightarrow> length (filter (\<lambda>x. f x = y) xs) \<le> 1"
proof (induction xs)
  case Nil
  then show ?case by simp
next
  case (Cons a xs)
  show ?case
  proof (cases "f a = y")
    case True
    with Cons.prems have "\<forall>x \<in> set xs. f x \<noteq> y" by (auto simp: image_iff)
    then have "filter (\<lambda>x. f x = y) xs = []" by (simp add: filter_empty_conv)
    with True show ?thesis by simp
  next
    case False
    with Cons show ?thesis by simp
  qed
qed

section \<open>The score invariant\<close>




section \<open>The invariants of the vote store\<close>

lemma count_distinct_map:
  assumes "\<And>y. length (filter (\<lambda>x. f x = y) xs) \<le> 1"
  shows "distinct (map f xs)"
  using assms
proof (induction xs)
  case Nil
  then show ?case by simp
next
  case (Cons a xs)
  from Cons.prems [of "f a"] have "filter (\<lambda>x. f x = f a) xs = []" by simp
  then have "f a \<notin> f ` set xs" by (auto simp: filter_empty_conv)
  moreover have "length (filter (\<lambda>x. f x = y) xs) \<le> 1" for y
    using Cons.prems [of y] by (simp split: if_splits)
  then have "distinct (map f xs)" by (rule Cons.IH)
  ultimately show ?case by simp
qed

lemma votes_ok_iff:
  "votes_ok xs \<longleftrightarrow>
     (\<forall>v \<in> set xs. vote_value v = - 1 \<or> vote_value v = 1) \<and>
     (\<forall>u i. length (filter (\<lambda>v. vote_user v = u \<and> vote_item v = i) xs) \<le> 1)"
proof -
  have "distinct (map (\<lambda>v. (vote_user v, vote_item v)) xs) \<longleftrightarrow>
        (\<forall>y. length (filter (\<lambda>v. (vote_user v, vote_item v) = y) xs) \<le> 1)"
    using count_distinct_map [of "\<lambda>v. (vote_user v, vote_item v)" xs]
      distinct_map_count [of "\<lambda>v. (vote_user v, vote_item v)" xs]
    by blast
  then show ?thesis by (simp add: votes_ok_def)
qed

lemma delete_one_subset: "set (delete_one P xs) \<subseteq> set xs"
  by (induction xs) auto

lemma delete_one_distinct_map: "distinct (map f xs) \<Longrightarrow> distinct (map f (delete_one P xs))"
proof (induction xs)
  case Nil
  then show ?case by simp
next
  case (Cons a xs)
  with delete_one_subset [of P xs] show ?case by auto
qed

lemma votes_ok_append:
  "votes_ok xs \<Longrightarrow> vote_value v = - 1 \<or> vote_value v = 1 \<Longrightarrow>
     \<forall>w \<in> set xs. \<not> (vote_user w = vote_user v \<and> vote_item w = vote_item v) \<Longrightarrow>
     votes_ok (xs @ [v])"
  by (auto simp: votes_ok_def)

lemma votes_ok_update:
  "votes_ok xs \<Longrightarrow> t = - 1 \<or> t = 1 \<Longrightarrow>
     votes_ok (map (\<lambda>w. if c w then w\<lparr>vote_value := t\<rparr> else w) xs)"
  by (auto simp: votes_ok_def map_key_update)

lemma votes_ok_delete_one: "votes_ok xs \<Longrightarrow> votes_ok (delete_one P xs)"
  using delete_one_subset [of P xs]
  by (auto simp: votes_ok_def delete_one_distinct_map)

lemma votes_ok_filter: "votes_ok xs \<Longrightarrow> votes_ok (filter P xs)"
  by (auto simp: votes_ok_def distinct_map_filter)

lemma Vote_insert_ok:
  "Vote_insert st v = Inr st' \<Longrightarrow> votes_ok (votes st) \<Longrightarrow> votes_ok (votes st')"
  by (auto simp: Vote_insert_def Vote_validate_def split: if_splits intro!: votes_ok_append)

lemma Vote_save_ok:
  "Vote_save st v = Inr st' \<Longrightarrow> votes_ok (votes st) \<Longrightarrow> votes_ok (votes st')"
  by (auto simp: Vote_save_def Vote_validate_def split: if_splits intro!: votes_ok_update)

lemma cast_vote_ok:
  assumes "cast_vote st u i k now t ex = Inr (st', d)" and "votes_ok (votes st)"
  shows "votes_ok (votes st')"
proof (cases ex)
  case None
  with assms show ?thesis
    by (cases "t = 0")
      (auto simp: cast_vote_def Let_def split: sum.splits dest!: Vote_insert_ok)
next
  case (Some v)
  with assms show ?thesis
    by (cases "t = 0")
      (auto simp: cast_vote_def Let_def Vote_remove_def votes_ok_delete_one
        split: sum.splits dest!: Vote_save_ok)
qed

lemma vote_post_apply_ok:
  assumes "votes_ok (votes st)"
  shows "votes_ok (votes (fst (vote_post_apply st u now t docs)))"
proof -
  obtain p ex where docs: "docs = (p, ex)" by (cases docs)
  show ?thesis
  proof (cases "cast_vote st u (post_id p) ''post'' now t ex")
    case (Inl e)
    with assms docs show ?thesis by (simp add: vote_post_apply_def)
  next
    case (Inr res)
    obtain st1 d where res: "res = (st1, d)" by (cases res)
    from cast_vote_ok [OF Inr [unfolded res] assms] have "votes_ok (votes st1)" .
    with Inr res docs show ?thesis
      by (auto simp: vote_post_apply_def Post_save_votes_def Let_def)
  qed
qed

lemma vote_comment_apply_ok:
  assumes "votes_ok (votes st)"
  shows "votes_ok (votes (fst (vote_comment_apply st u now t docs)))"
proof -
  obtain c ex where docs: "docs = (c, ex)" by (cases docs)
  show ?thesis
  proof (cases "cast_vote st u (comment_id c) ''comment'' now t ex")
    case (Inl e)
    with assms docs show ?thesis by (simp add: vote_comment_apply_def)
  next
    case (Inr res)
    obtain st1 d where res: "res = (st1, d)" by (cases res)
    from cast_vote_ok [OF Inr [unfolded res] assms] have "votes_ok (votes st1)" .
    with Inr res docs show ?thesis
      by (auto simp: vote_comment_apply_def Comment_save_votes_def Let_def)
  qed
qed

lemma task_step_ok:
  assumes "votes_ok (votes st)"
  shows "votes_ok (votes (fst (task_step now st tk)))"
proof (cases tk)
  case (Start u idp t)
  with assms show ?thesis by (simp split: sum.splits)
next
  case (Loaded u t docs)
  with vote_post_apply_ok [OF assms, of u now t docs] show ?thesis
    by (cases "vote_post_apply st u now t docs") simp
next
  case (Finished r)
  with assms show ?thesis by simp
qed

lemma create_post_ok:
  assumes "votes_ok (votes st)"
  shows "votes_ok (votes (fst (create_post st user now verrs title content community)))"
  using assms
  by (auto simp: create_post_def Let_def Post_save_votes_def
      split: sum.splits if_splits dest!: Vote_insert_ok)

lemma create_comment_ok:
  assumes "votes_ok (votes st)"
  shows "votes_ok (votes (fst (create_comment st user now verrs idp content)))"
  using assms
  by (auto simp: create_comment_def Let_def
      split: sum.splits option.splits if_splits dest!: Vote_insert_ok)

lemma handle_ok:
  assumes "votes_ok (votes st)"
  shows "votes_ok (votes (fst (handle st rq)))"
proof (cases rq)
  case (Create_post user now verrs title content community)
  with create_post_ok [OF assms] show ?thesis by simp
next
  case (Update_post user verrs idp title content)
  with assms show ?thesis
    by (auto simp: update_post_def Let_def split: sum.splits option.splits)
next
  case (Delete_post user idp)
  with assms show ?thesis
    by (auto simp: delete_post_def Let_def Comment_deleteMany_def Vote_deleteMany_def
        Post_remove_def votes_ok_filter split: sum.splits option.splits)
next
  case (Vote_post user now idp voteType)
  with assms vote_post_apply_ok [OF assms] show ?thesis
    by (simp add: vote_post_def split: sum.splits)
next
  case (Create_comment user now verrs idp content)
  with create_comment_ok [OF assms] show ?thesis by simp
next
  case (Update_comment user verrs idp content)
  with assms show ?thesis
    by (auto simp: update_comment_def Let_def split: sum.splits option.splits)
next
  case (Delete_comment user idp)
  with assms show ?thesis
    by (auto simp: delete_comment_def Let_def Vote_deleteMany_def
        Comment_remove_def votes_ok_filter split: sum.splits option.splits)
next
  case (Vote_comment user now idp voteType)
  with assms vote_comment_apply_ok [OF assms] show ?thesis
    by (simp add: vote_comment_def split: sum.splits)
qed

lemma reachable_ok: "reachable st \<Longrightarrow> votes_ok (votes st)"
  by (induction rule: reachable.induct)
    (simp_all add: init_state_def votes_ok_def handle_ok [unfolded votes_ok_def])

text \<open>
  Claim C8. In every reachable state each stored Vote has value \<open>-1\<close> or \<open>+1\<close>, and for
  every pair of a user and an item at most one Vote record is stored. Both properties
  are preserved, from any state that has them, by every handler and by every step of a
  vote request that overlaps with others: the schema validation and the unique index
  act on each write to the collection.
\<close>

theorem vote_store_invariants:
  "(reachable st \<longrightarrow>
      (\<forall>v \<in> set (votes st). vote_value v = - 1 \<or> vote_value v = 1) \<and>
      (\<forall>u i. length (filter (\<lambda>v. vote_user v = u \<and> vote_item v = i) (votes st)) \<le> 1)) \<and>
   ((\<forall>v \<in> set (votes st). vote_value v = - 1 \<or> vote_value v = 1) \<and>
    (\<forall>u i. length (filter (\<lambda>v. vote_user v = u \<and> vote_item v = i) (votes st)) \<le> 1) \<longrightarrow>
      (\<forall>st' \<in> {fst (handle st rq), fst (task_step now st tk)}.
         (\<forall>v \<in> set (votes st'). vote_value v = - 1 \<or> vote_value v = 1) \<and>
         (\<forall>u i. length (filter (\<lambda>v. vote_user v = u \<and> vote_item v = i) (votes st')) \<le> 1)))"
  using reachable_ok [of st] handle_ok [of st rq] task_step_ok [of st now tk]
  unfolding votes_ok_iff by blast


theorem vote_store_invariants_witness:
  "reachable (run_sequential (init_state [''general''])
      [Create_post 1 100 [] ''t'' ''c'' ''general'', Vote_post 2 101 (Some 0) 1]) \<and>
   length (filter (\<lambda>v. vote_user v = 2 \<and> vote_item v = 0)
     (votes (run_sequential (init_state [''general''])
        [Create_post 1 100 [] ''t'' ''c'' ''general'', Vote_post 2 101 (Some 0) 1]))) \<le> 1 \<and>
   length (filter (\<lambda>v. vote_user v = 2 \<and> vote_item v = 0)
     (votes (fst (handle (run_sequential (init_state [''general''])
        [Create_post 1 100 [] ''t'' ''c'' ''general'', Vote_post 2 101 (Some 0) 1])
        (Vote_post 2 102 (Some 0) (- 1)))))) \<le> 1 \<and>
   length (filter (\<lambda>v. vote_user v = 2 \<and> vote_item v = 0)
     (votes (fst (task_step 103 (run_sequential (init_state [''general''])
        [Create_post 1 100 [] ''t'' ''c'' ''general'', Vote_post 2 101 (Some 0) 1])
        (Loaded 2 (- 1)
           (\<lparr>post_id = 0, post_title = ''t'', post_content = ''c'', post_author = 1,
             post_community = ''general'', post_votes = 1, post_isEdited = False,
             post_createdAt = 100\<rparr>, None)))))) \<le> 1 \<and>
   map vote_value (votes (fst (handle (run_sequential (init_state [''general''])
        [Create_post 1 100 [] ''t'' ''c'' ''general'', Vote_post 2 101 (Some 0) 1])
        (Vote_post 2 102 (Some 0) (- 1))))) = [1, - 1]"
proof -
  define S where "S = run_sequential (init_state [''general''])
      [Create_post 1 100 [] ''t'' ''c'' ''general'', Vote_post 2 101 (Some 0) 1]"
  define tk where "tk = Loaded 2 (- 1)
           (\<lparr>post_id = 0, post_title = ''t'', post_content = ''c'', post_author = 1,
             post_community = ''general'', post_votes = 1, post_isEdited = False,
             post_createdAt = 100\<rparr>, None)"
  have r: "reachable S" unfolding S_def by (rule reachable_run) (rule reachable_init)
  have vals: "map vote_value (votes (fst (handle S (Vote_post 2 102 (Some 0) (- 1))))) = [1, - 1]"
    unfolding S_def by code_simp
  note T = vote_store_invariants [of S "Vote_post 2 102 (Some 0) (- 1)" 103 tk]
  from T r have "length (filter (\<lambda>v. vote_user v = 2 \<and> vote_item v = 0) (votes S)) \<le> 1"
    by blast
  moreover from T r
  have "length (filter (\<lambda>v. vote_user v = 2 \<and> vote_item v = 0)
          (votes (fst (handle S (Vote_post 2 102 (Some 0) (- 1)))))) \<le> 1"
    by blast
  moreover from T r
  have "length (filter (\<lambda>v. vote_user v = 2 \<and> vote_item v = 0)
          (votes (fst (task_step 103 S tk)))) \<le> 1"
    by blast
  ultimately show ?thesis using r vals unfolding S_def tk_def by blast
qed

section \<open>Karma\<close>

text \<open>
  Claim C9. When both reads succeed, \<^verbatim>\<open>calculateKarma\<close> returns the sum of the scores of
  the posts that the user wrote plus the sum of the scores of the comments that the user
  wrote, computed from the stored scores of the state it is called in.
\<close>

theorem karma_is_sum_of_scores:
  assumes "postsRead = Inr (Post_find_author st u)"
    and "commentsRead = Inr (Comment_find_author st u)"
  shows "calculateKarma postsRead commentsRead =
           sum_list (map post_votes (filter (\<lambda>p. post_author p = u) (posts st))) +
           sum_list (map comment_votes (filter (\<lambda>c. comment_author c = u) (comments st)))"
  using assms
  by (simp add: calculateKarma_def Post_find_author_def Comment_find_author_def foldl_add_sum)


theorem karma_is_sum_of_scores_witness:
  "calculateKarma
     (Inr (Post_find_author (run_sequential (init_state [''general''])
        [Create_post 1 100 [] ''t'' ''c'' ''general'', Create_comment 1 101 [] (Some 0) ''hi'',
         Vote_post 2 102 (Some 0) 1, Create_post 2 103 [] ''t2'' ''c2'' ''general'']) 1))
     (Inr (Comment_find_author (run_sequential (init_state [''general''])
        [Create_post 1 100 [] ''t'' ''c'' ''general'', Create_comment 1 101 [] (Some 0) ''hi'',
         Vote_post 2 102 (Some 0) 1, Create_post 2 103 [] ''t2'' ''c2'' ''general'']) 1)) = 3"
proof -
  let ?st = "run_sequential (init_state [''general''])
        [Create_post 1 100 [] ''t'' ''c'' ''general'', Create_comment 1 101 [] (Some 0) ''hi'',
         Vote_post 2 102 (Some 0) 1, Create_post 2 103 [] ''t2'' ''c2'' ''general'']"
  have "sum_list (map post_votes (filter (\<lambda>p. post_author p = 1) (posts ?st))) +
        sum_list (map comment_votes (filter (\<lambda>c. comment_author c = 1) (comments ?st))) = 3"
    by code_simp
  with karma_is_sum_of_scores [OF refl refl, of ?st 1] show ?thesis by simp
qed

section \<open>The vote transition\<close>

lemma find_map_update:
  assumes "\<And>w. P (g w) = P w"
  shows "find P (map (\<lambda>w. if c w then g w else w) xs) =
         map_option (\<lambda>w. if c w then g w else w) (find P xs)"
  by (induction xs) (simp_all add: assms)

lemma distinct_map_eqD:
  "distinct (map f xs) \<Longrightarrow> x \<in> set xs \<Longrightarrow> y \<in> set xs \<Longrightarrow> f x = f y \<Longrightarrow> x = y"
  by (auto simp: distinct_map inj_on_def)

lemma update_same_id:
  assumes "distinct (map vote_id xs)" and "v \<in> set xs"
  shows "map (\<lambda>w. if vote_id w = vote_id v then w\<lparr>vote_value := vote_value v\<rparr> else w) xs = xs"
proof (rule map_idI)
  fix w assume "w \<in> set xs"
  with assms have "vote_id w = vote_id v \<Longrightarrow> w = v"
    using distinct_map_eqD [of vote_id xs w v] by simp
  then show "(if vote_id w = vote_id v then w\<lparr>vote_value := vote_value v\<rparr> else w) = w"
    by auto
qed

lemma Vote_findOne_SomeD:
  "Vote_findOne st u i k = Some v \<Longrightarrow>
     v \<in> set (votes st) \<and> vote_user v = u \<and> vote_item v = i \<and> vote_itemType v = k"
  using find_SomeD [of _ "votes st" v] by (auto simp: Vote_findOne_def)

lemma row_none_zero: "cast_vote st u i k now 0 None = Inr (st, 0)"
  by (simp add: cast_vote_def)

lemma row_none_insert:
  assumes "t = 1 \<or> t = - 1" and "k = ''post'' \<or> k = ''comment''"
    and "\<forall>w \<in> set (votes st). \<not> (vote_user w = u \<and> vote_item w = i)"
  shows "cast_vote st u i k now t None =
     Inr (st\<lparr>oid_counter := Suc (oid_counter st),
              votes := votes st @ [\<lparr>vote_id = oid_counter st, vote_user = u, vote_item = i,
                 vote_itemType = k, vote_value = t, vote_createdAt = now\<rparr>]\<rparr>, t)"
  using assms by (auto simp: cast_vote_def Vote_insert_def Vote_validate_def)

lemma row_delete:
  assumes "wf_store st" and "Vote_findOne st u i k = Some v"
  shows "cast_vote st u i k now 0 (Some v) =
     Inr (st\<lparr>votes := filter (\<lambda>w. vote_id w \<noteq> vote_id v) (votes st)\<rparr>, - vote_value v)"
    and "Vote_findOne (st\<lparr>votes := filter (\<lambda>w. vote_id w \<noteq> vote_id v) (votes st)\<rparr>) u i k = None"
proof -
  from assms(1) have d: "distinct (map vote_id (votes st))"
    and ui: "distinct (map (\<lambda>v. (vote_user v, vote_item v)) (votes st))"
    by (simp_all add: wf_store_def ids_distinct_def unique_index_def)
  from d show "cast_vote st u i k now 0 (Some v) =
     Inr (st\<lparr>votes := filter (\<lambda>w. vote_id w \<noteq> vote_id v) (votes st)\<rparr>, - vote_value v)"
    by (simp add: cast_vote_def Vote_remove_def delete_one_filter)
  note v = Vote_findOne_SomeD [OF assms(2)]
  have "w = v" if "w \<in> set (votes st)" "vote_user w = u" "vote_item w = i" for w
    using distinct_map_eqD [OF ui that(1), of v] v that by simp
  then show "Vote_findOne (st\<lparr>votes := filter (\<lambda>w. vote_id w \<noteq> vote_id v) (votes st)\<rparr>) u i k
      = None"
    by (auto simp: Vote_findOne_def find_None_iff)
qed

lemma row_same:
  assumes "wf_store st" and "Vote_findOne st u i k = Some v"
  shows "cast_vote st u i k now (vote_value v) (Some v) = Inr (st, 0)"
proof -
  note v = Vote_findOne_SomeD [OF assms(2)]
  from assms(1) v have valid: "Vote_validate v" and d: "distinct (map vote_id (votes st))"
    by (simp_all add: wf_store_def votes_valid_def ids_distinct_def)
  from valid have nz: "vote_value v \<noteq> 0" by (auto simp: Vote_validate_def)
  from v have ex: "\<exists>w \<in> set (votes st). vote_id w = vote_id v" by auto
  from nz valid ex show ?thesis
    by (simp add: cast_vote_def Vote_save_def update_same_id [OF d] v)
qed

lemma row_flip:
  assumes "wf_store st" and "Vote_findOne st u i k = Some v"
  shows "cast_vote st u i k now (- vote_value v) (Some v) =
     Inr (st\<lparr>votes := map (\<lambda>w. if vote_id w = vote_id v
                               then w\<lparr>vote_value := - vote_value v\<rparr> else w) (votes st)\<rparr>,
          - 2 * vote_value v)"
    and "Vote_findOne (st\<lparr>votes := map (\<lambda>w. if vote_id w = vote_id v
                               then w\<lparr>vote_value := - vote_value v\<rparr> else w) (votes st)\<rparr>) u i k
         = Some (v\<lparr>vote_value := - vote_value v\<rparr>)"
proof -
  note v = Vote_findOne_SomeD [OF assms(2)]
  from assms(1) v have valid: "Vote_validate v"
    by (simp_all add: wf_store_def votes_valid_def)
  from valid have nz: "vote_value v \<noteq> 0" by (auto simp: Vote_validate_def)
  from valid have valid': "Vote_validate (v\<lparr>vote_value := - vote_value v\<rparr>)"
    by (auto simp: Vote_validate_def)
  from v have ex: "\<exists>w \<in> set (votes st). vote_id w = vote_id v" by auto
  from nz valid' ex show "cast_vote st u i k now (- vote_value v) (Some v) =
     Inr (st\<lparr>votes := map (\<lambda>w. if vote_id w = vote_id v
                               then w\<lparr>vote_value := - vote_value v\<rparr> else w) (votes st)\<rparr>,
          - 2 * vote_value v)"
    by (simp add: cast_vote_def Vote_save_def)
  from assms(2) show "Vote_findOne (st\<lparr>votes := map (\<lambda>w. if vote_id w = vote_id v
                               then w\<lparr>vote_value := - vote_value v\<rparr> else w) (votes st)\<rparr>) u i k
         = Some (v\<lparr>vote_value := - vote_value v\<rparr>)"
    by (simp add: Vote_findOne_def find_map_update)
qed

text \<open>
  Claim C2. \<open>cast_vote\<close> is the vote-record part of both vote handlers; they call it with
  the vote that \<^verbatim>\<open>Vote.findOne\<close> returned and add the second component of its result,
  \<^verbatim>\<open>voteChange\<close>, to the item's score. On a well-formed store it realises the table:
  no vote and request 0 changes nothing, with change 0; no vote of the user on the item
  and request \<open>t = \<plusminus>1\<close> inserts a Vote of value \<open>t\<close>, with change \<open>t\<close>; a vote \<open>v\<close> and
  request 0 deletes the record, with change \<open>- v\<close>; a vote \<open>v\<close> and request \<open>v\<close> leaves the
  whole store as it is, with change 0; a vote \<open>v\<close> and request \<open>- v\<close> sets the value of the
  record to \<open>- v\<close>, with change \<open>- 2 v\<close>.
\<close>

theorem vote_transition_table:
  assumes "wf_store st" and "k = ''post'' \<or> k = ''comment''"
  shows
    "cast_vote st u i k now 0 None = Inr (st, 0) \<and>
     (\<forall>t \<in> {1, - 1}.
        (\<forall>w \<in> set (votes st). \<not> (vote_user w = u \<and> vote_item w = i)) \<longrightarrow>
        cast_vote st u i k now t None =
          Inr (st\<lparr>oid_counter := Suc (oid_counter st),
                   votes := votes st @ [\<lparr>vote_id = oid_counter st, vote_user = u,
                      vote_item = i, vote_itemType = k, vote_value = t,
                      vote_createdAt = now\<rparr>]\<rparr>, t)) \<and>
     (\<forall>v. Vote_findOne st u i k = Some v \<longrightarrow>
        (vote_value v = 1 \<or> vote_value v = - 1) \<and>
        cast_vote st u i k now 0 (Some v) =
          Inr (st\<lparr>votes := filter (\<lambda>w. vote_id w \<noteq> vote_id v) (votes st)\<rparr>, - vote_value v) \<and>
        Vote_findOne (st\<lparr>votes := filter (\<lambda>w. vote_id w \<noteq> vote_id v) (votes st)\<rparr>) u i k
          = None \<and>
        cast_vote st u i k now (vote_value v) (Some v) = Inr (st, 0) \<and>
        cast_vote st u i k now (- vote_value v) (Some v) =
          Inr (st\<lparr>votes := map (\<lambda>w. if vote_id w = vote_id v
                                    then w\<lparr>vote_value := - vote_value v\<rparr> else w) (votes st)\<rparr>,
               - 2 * vote_value v) \<and>
        Vote_findOne (st\<lparr>votes := map (\<lambda>w. if vote_id w = vote_id v
                                    then w\<lparr>vote_value := - vote_value v\<rparr> else w) (votes st)\<rparr>)
            u i k = Some (v\<lparr>vote_value := - vote_value v\<rparr>))"
proof (intro conjI ballI allI impI)
  show "cast_vote st u i k now 0 None = Inr (st, 0)" by (rule row_none_zero)
next
  fix t :: int
  assume "t \<in> {1, - 1}"
    and "\<forall>w \<in> set (votes st). \<not> (vote_user w = u \<and> vote_item w = i)"
  with assms(2) show "cast_vote st u i k now t None =
          Inr (st\<lparr>oid_counter := Suc (oid_counter st),
                   votes := votes st @ [\<lparr>vote_id = oid_counter st, vote_user = u,
                      vote_item = i, vote_itemType = k, vote_value = t,
                      vote_createdAt = now\<rparr>]\<rparr>, t)"
    by (intro row_none_insert) auto
next
  fix v assume f: "Vote_findOne st u i k = Some v"
  from assms(1) Vote_findOne_SomeD [OF f] show "vote_value v = 1 \<or> vote_value v = - 1"
    by (auto simp: wf_store_def votes_valid_def Vote_validate_def)
  show "cast_vote st u i k now 0 (Some v) =
          Inr (st\<lparr>votes := filter (\<lambda>w. vote_id w \<noteq> vote_id v) (votes st)\<rparr>, - vote_value v)"
    by (rule row_delete [OF assms(1) f])
  show "Vote_findOne (st\<lparr>votes := filter (\<lambda>w. vote_id w \<noteq> vote_id v) (votes st)\<rparr>) u i k
          = None"
    by (rule row_delete [OF assms(1) f])
  show "cast_vote st u i k now (vote_value v) (Some v) = Inr (st, 0)"
    by (rule row_same [OF assms(1) f])
  show "cast_vote st u i k now (- vote_value v) (Some v) =
          Inr (st\<lparr>votes := map (\<lambda>w. if vote_id w = vote_id v
                                    then w\<lparr>vote_value := - vote_value v\<rparr> else w) (votes st)\<rparr>,
               - 2 * vote_value v)"
    by (rule row_flip [OF assms(1) f])
  show "Vote_findOne (st\<lparr>votes := map (\<lambda>w. if vote_id w = vote_id v
                                    then w\<lparr>vote_value := - vote_value v\<rparr> else w) (votes st)\<rparr>)
            u i k = Some (v\<lparr>vote_value := - vote_value v\<rparr>)"
    by (rule row_flip [OF assms(1) f])
qed


theorem vote_transition_table_witness:
  "wf_store (run_sequential (init_state [''general''])
      [Create_post 1 100 [] ''t'' ''c'' ''general'', Vote_post 2 101 (Some 0) 1]) \<and>
   Vote_findOne (run_sequential (init_state [''general''])
      [Create_post 1 100 [] ''t'' ''c'' ''general'', Vote_post 2 101 (Some 0) 1]) 2 0 ''post'' =
     Some \<lparr>vote_id = 2, vote_user = 2, vote_item = 0, vote_itemType = ''post'',
            vote_value = 1, vote_createdAt = 101\<rparr> \<and>
   map_sum id snd (cast_vote (run_sequential (init_state [''general''])
      [Create_post 1 100 [] ''t'' ''c'' ''general'', Vote_post 2 101 (Some 0) 1]) 2 0 ''post'' 7 0
      (Some \<lparr>vote_id = 2, vote_user = 2, vote_item = 0, vote_itemType = ''post'',
            vote_value = 1, vote_createdAt = 101\<rparr>)) = Inr (- 1) \<and>
   map_sum id snd (cast_vote (run_sequential (init_state [''general''])
      [Create_post 1 100 [] ''t'' ''c'' ''general'', Vote_post 2 101 (Some 0) 1]) 2 0 ''post'' 7 1
      (Some \<lparr>vote_id = 2, vote_user = 2, vote_item = 0, vote_itemType = ''post'',
            vote_value = 1, vote_createdAt = 101\<rparr>)) = Inr 0 \<and>
   map_sum id snd (cast_vote (run_sequential (init_state [''general''])
      [Create_post 1 100 [] ''t'' ''c'' ''general'', Vote_post 2 101 (Some 0) 1]) 2 0 ''post'' 7 (- 1)
      (Some \<lparr>vote_id = 2, vote_user = 2, vote_item = 0, vote_itemType = ''post'',
            vote_value = 1, vote_createdAt = 101\<rparr>)) = Inr (- 2)"
proof -
  define S where "S = run_sequential (init_state [''general''])
      [Create_post 1 100 [] ''t'' ''c'' ''general'', Vote_post 2 101 (Some 0) 1]"
  define V where "V = \<lparr>vote_id = 2, vote_user = 2, vote_item = 0, vote_itemType = ''post'',
            vote_value = 1, vote_createdAt = 101\<rparr>"
  have wf: "wf_store S" unfolding S_def by code_simp
  have f: "Vote_findOne S 2 0 ''post'' = Some V" unfolding S_def V_def by code_simp
  have val: "vote_value V = 1" by (simp add: V_def)
  from vote_transition_table [OF wf, of "''post''" 2 0 7] f
  have "cast_vote S 2 0 ''post'' 7 0 (Some V) =
          Inr (S\<lparr>votes := filter (\<lambda>w. vote_id w \<noteq> vote_id V) (votes S)\<rparr>, - vote_value V)"
    and "cast_vote S 2 0 ''post'' 7 (vote_value V) (Some V) = Inr (S, 0)"
    and "cast_vote S 2 0 ''post'' 7 (- vote_value V) (Some V) =
          Inr (S\<lparr>votes := map (\<lambda>w. if vote_id w = vote_id V
                                    then w\<lparr>vote_value := - vote_value V\<rparr> else w) (votes S)\<rparr>,
               - 2 * vote_value V)"
    by blast+
  with wf f val show ?thesis unfolding S_def V_def by simp
qed

section \<open>Errors of the vote handlers\<close>

lemma cast_vote_exn:
  "cast_vote st u i k now t ex = Inl e \<Longrightarrow> exn_kind e \<noteq> ''ObjectId''"
  by (auto simp: cast_vote_def Vote_insert_def Vote_save_def Let_def
      split: option.splits if_splits sum.splits)

lemma Post_findById_resolves:
  "(\<exists>p. Post_findById st idp = Inr (Some p)) \<longleftrightarrow> idp \<in> Some ` post_id ` set (posts st)"
proof (cases idp)
  case None
  then show ?thesis by (auto simp: Post_findById_def)
next
  case (Some i)
  have "(\<exists>p. find (\<lambda>p. post_id p = i) (posts st) = Some p) \<longleftrightarrow>
        find (\<lambda>p. post_id p = i) (posts st) \<noteq> None" by simp
  also have "\<dots> \<longleftrightarrow> i \<in> post_id ` set (posts st)" by (auto simp: find_None_iff)
  finally show ?thesis using Some by (auto simp: Post_findById_def)
qed

lemma Comment_findById_resolves:
  "(\<exists>c. Comment_findById st idp = Inr (Some c)) \<longleftrightarrow>
     idp \<in> Some ` comment_id ` set (comments st)"
proof (cases idp)
  case None
  then show ?thesis by (auto simp: Comment_findById_def)
next
  case (Some i)
  have "(\<exists>c. find (\<lambda>c. comment_id c = i) (comments st) = Some c) \<longleftrightarrow>
        find (\<lambda>c. comment_id c = i) (comments st) \<noteq> None" by simp
  also have "\<dots> \<longleftrightarrow> i \<in> comment_id ` set (comments st)" by (auto simp: find_None_iff)
  finally show ?thesis using Some by (auto simp: Comment_findById_def)
qed

lemma vote_post_invalid:
  "t \<notin> {- 1, 0, 1} \<Longrightarrow> vote_post st u now idp t = (st, Res_status 400 ''Invalid vote type'')"
  by (simp add: vote_post_def vote_post_lookup_def)

lemma vote_post_not_found:
  assumes "t \<in> {- 1, 0, 1}" and "idp \<notin> Some ` post_id ` set (posts st)"
  shows "vote_post st u now idp t = (st, Res_status 404 ''Post not found'')"
proof -
  from assms(2) have "\<not> (\<exists>p. Post_findById st idp = Inr (Some p))"
    by (simp only: Post_findById_resolves not_False_eq_True)
  then have "Post_findById st idp = Inl CastError \<or> Post_findById st idp = Inr None"
    by (cases idp) (auto simp: Post_findById_def)
  with assms(1) show ?thesis
    by (auto simp: vote_post_def vote_post_lookup_def catch_post_def)
qed

lemma vote_post_found:
  assumes "t \<in> {- 1, 0, 1}" and "Post_findById st idp = Inr (Some p)"
  shows "snd (vote_post st u now idp t) = Res_status 500 ''Server error'' \<or>
         (\<exists>n. snd (vote_post st u now idp t) = Res_votes n)"
proof (cases "cast_vote st u (post_id p) ''post'' now t (Vote_findOne st u (post_id p) ''post'')")
  case (Inl e)
  with assms cast_vote_exn [OF Inl] show ?thesis
    by (auto simp: vote_post_def vote_post_lookup_def vote_post_apply_def catch_post_def)
next
  case (Inr res)
  obtain st1 d where "res = (st1, d)" by (cases res)
  with Inr assms show ?thesis
    by (auto simp: vote_post_def vote_post_lookup_def vote_post_apply_def catch_post_def
        Post_save_votes_def Let_def)
qed

lemma vote_comment_invalid:
  "t \<notin> {- 1, 0, 1} \<Longrightarrow>
     vote_comment st u now idp t = (st, Res_status 400 ''Invalid vote type'')"
  by (simp add: vote_comment_def vote_comment_lookup_def)

lemma vote_comment_not_found:
  assumes "t \<in> {- 1, 0, 1}" and "idp \<notin> Some ` comment_id ` set (comments st)"
  shows "vote_comment st u now idp t = (st, Res_status 404 ''Comment not found'')"
proof -
  from assms(2) have "\<not> (\<exists>c. Comment_findById st idp = Inr (Some c))"
    by (simp only: Comment_findById_resolves not_False_eq_True)
  then have "Comment_findById st idp = Inl CastError \<or> Comment_findById st idp = Inr None"
    by (cases idp) (auto simp: Comment_findById_def)
  with assms(1) show ?thesis
    by (auto simp: vote_comment_def vote_comment_lookup_def catch_comment_def)
qed

lemma vote_comment_found:
  assumes "t \<in> {- 1, 0, 1}" and "Comment_findById st idp = Inr (Some c)"
  shows "snd (vote_comment st u now idp t) = Res_status 500 ''Server error'' \<or>
         (\<exists>n. snd (vote_comment st u now idp t) = Res_votes n)"
proof (cases "cast_vote st u (comment_id c) ''comment'' now t
    (Vote_findOne st u (comment_id c) ''comment'')")
  case (Inl e)
  with assms cast_vote_exn [OF Inl] show ?thesis
    by (auto simp: vote_comment_def vote_comment_lookup_def vote_comment_apply_def
        catch_comment_def)
next
  case (Inr res)
  obtain st1 d where "res = (st1, d)" by (cases res)
  with Inr assms show ?thesis
    by (auto simp: vote_comment_def vote_comment_lookup_def vote_comment_apply_def
        catch_comment_def Comment_save_votes_def Let_def)
qed

text \<open>
  Claim C5, as stated, fails where both checks would fail: the vote type is checked
  first, so a request with vote type 2 for an id that resolves to no post is answered
  with \<^verbatim>\<open>400 Invalid vote type\<close>, not with \<^verbatim>\<open>404 Post not found\<close>.
\<close>

theorem vote_errors_counterexample:
  "posts (init_state []) = [] \<and>
   vote_post (init_state []) 1 0 (Some 0) 2 =
     (init_state [], Res_status 400 ''Invalid vote type'')"
  by (simp add: init_state_def vote_post_def vote_post_lookup_def)

text \<open>
  Claim C5, amended. A vote handler answers \<^verbatim>\<open>400 Invalid vote type\<close> exactly when the
  requested type is outside \<open>{-1, 0, 1}\<close>; it answers \<^verbatim>\<open>404 \<dots> not found\<close> exactly when the
  requested type is valid and the id does not resolve to a stored item of the handler's
  kind (it is no ObjectId, or no stored item has it); and in both cases the state is left
  as it was.
\<close>

theorem vote_errors:
  "(snd (vote_post st u now idp t) = Res_status 400 ''Invalid vote type''
      \<longleftrightarrow> t \<notin> {- 1, 0, 1}) \<and>
   (snd (vote_post st u now idp t) = Res_status 404 ''Post not found''
      \<longleftrightarrow> t \<in> {- 1, 0, 1} \<and> idp \<notin> Some ` post_id ` set (posts st)) \<and>
   (t \<notin> {- 1, 0, 1} \<or> idp \<notin> Some ` post_id ` set (posts st)
      \<longrightarrow> fst (vote_post st u now idp t) = st) \<and>
   (snd (vote_comment st u now idp t) = Res_status 400 ''Invalid vote type''
      \<longleftrightarrow> t \<notin> {- 1, 0, 1}) \<and>
   (snd (vote_comment st u now idp t) = Res_status 404 ''Comment not found''
      \<longleftrightarrow> t \<in> {- 1, 0, 1} \<and> idp \<notin> Some ` comment_id ` set (comments st)) \<and>
   (t \<notin> {- 1, 0, 1} \<or> idp \<notin> Some ` comment_id ` set (comments st)
      \<longrightarrow> fst (vote_comment st u now idp t) = st)"
proof -
  have post: "(snd (vote_post st u now idp t) = Res_status 400 ''Invalid vote type''
      \<longleftrightarrow> t \<notin> {- 1, 0, 1}) \<and>
   (snd (vote_post st u now idp t) = Res_status 404 ''Post not found''
      \<longleftrightarrow> t \<in> {- 1, 0, 1} \<and> idp \<notin> Some ` post_id ` set (posts st)) \<and>
   (t \<notin> {- 1, 0, 1} \<or> idp \<notin> Some ` post_id ` set (posts st)
      \<longrightarrow> fst (vote_post st u now idp t) = st)"
  proof (cases "t \<in> {- 1, 0, 1}")
    case False
    with vote_post_invalid [OF False, of st u now idp] show ?thesis by simp
  next
    case valid: True
    show ?thesis
    proof (cases "idp \<in> Some ` post_id ` set (posts st)")
      case False
      with valid vote_post_not_found [OF valid False, of u now] show ?thesis by simp
    next
      case True
      then obtain p where "Post_findById st idp = Inr (Some p)"
        using Post_findById_resolves [of st idp] by blast
      from vote_post_found [OF valid this, of u now] valid True show ?thesis by auto
    qed
  qed
  have comment: "(snd (vote_comment st u now idp t) = Res_status 400 ''Invalid vote type''
      \<longleftrightarrow> t \<notin> {- 1, 0, 1}) \<and>
   (snd (vote_comment st u now idp t) = Res_status 404 ''Comment not found''
      \<longleftrightarrow> t \<in> {- 1, 0, 1} \<and> idp \<notin> Some ` comment_id ` set (comments st)) \<and>
   (t \<notin> {- 1, 0, 1} \<or> idp \<notin> Some ` comment_id ` set (comments st)
      \<longrightarrow> fst (vote_comment st u now idp t) = st)"
  proof (cases "t \<in> {- 1, 0, 1}")
    case False
    with vote_comment_invalid [OF False, of st u now idp] show ?thesis by simp
  next
    case valid: True
    show ?thesis
    proof (cases "idp \<in> Some ` comment_id ` set (comments st)")
      case False
      with valid vote_comment_not_found [OF valid False, of u now] show ?thesis by simp
    next
      case True
      then obtain c where "Comment_findById st idp = Inr (Some c)"
        using Comment_findById_resolves [of st idp] by blast
      from vote_comment_found [OF valid this, of u now] valid True show ?thesis by auto
    qed
  qed
  from post comment show ?thesis by blast
qed


theorem vote_errors_witness:
  "(1::int) \<in> {- 1, 0, 1} \<and>
   Some 5 \<notin> Some ` post_id ` set (posts (run_sequential (init_state [''general''])
      [Create_post 1 100 [] ''t'' ''c'' ''general''])) \<and>
   snd (vote_post (run_sequential (init_state [''general''])
      [Create_post 1 100 [] ''t'' ''c'' ''general'']) 2 7 (Some 5) 1) =
     Res_status 404 ''Post not found'' \<and>
   fst (vote_post (run_sequential (init_state [''general''])
      [Create_post 1 100 [] ''t'' ''c'' ''general'']) 2 7 (Some 5) 1) =
     run_sequential (init_state [''general'']) [Create_post 1 100 [] ''t'' ''c'' ''general'']"
proof -
  define S where "S = run_sequential (init_state [''general''])
      [Create_post 1 100 [] ''t'' ''c'' ''general'']"
  have t: "(1::int) \<in> {- 1, 0, 1}" by simp
  have i: "Some 5 \<notin> Some ` post_id ` set (posts S)" unfolding S_def by code_simp
  from vote_errors [of S 2 7 "Some 5" 1] t i
  have "snd (vote_post S 2 7 (Some 5) 1) = Res_status 404 ''Post not found''"
    and "fst (vote_post S 2 7 (Some 5) 1) = S"
    by blast+
  with t i show ?thesis unfolding S_def by blast
qed

section \<open>Creation of an item\<close>

text \<open>
  Claim C6. On a well-formed store the creation of a post succeeds when the request is
  valid and the community exists, and the creation of a comment succeeds when the
  request is valid and the id resolves to a stored post. After a successful creation of
  a post or of a comment by \<open>user\<close> the new item is stored with score 1 and exactly one
  Vote record references it: the author's upvote, of value \<open>+1\<close> and of the item's kind.
\<close>

theorem creation_self_upvote:
  assumes "wf_store st"
  shows "(verrs = [] \<and> community \<in> set (communities st) \<longrightarrow>
            (\<exists>s q. create_post st user now verrs title content community = (s, Res_post q))) \<and>
         (create_post st user now verrs title content community = (st', Res_post p) \<longrightarrow>
            p \<in> set (posts st') \<and> post_author p = user \<and> post_votes p = 1 \<and>
            votes_for st' (post_id p) ''post'' =
              [\<lparr>vote_id = Suc (post_id p), vote_user = user, vote_item = post_id p,
                vote_itemType = ''post'', vote_value = 1, vote_createdAt = now\<rparr>]) \<and>
         (verrs = [] \<and> idp \<in> Some ` post_id ` set (posts st) \<longrightarrow>
            (\<exists>s d. create_comment st user now verrs idp content = (s, Res_commentObj d True 1))) \<and>
         (create_comment st user now verrs idp content = (st', Res_commentObj c a n) \<longrightarrow>
            c \<in> set (comments st') \<and> comment_author c = user \<and> comment_votes c = 1 \<and>
            votes_for st' (comment_id c) ''comment'' =
              [\<lparr>vote_id = Suc (comment_id c), vote_user = user, vote_item = comment_id c,
                vote_itemType = ''comment'', vote_value = 1, vote_createdAt = now\<rparr>])"
proof (intro conjI impI)
  from assms have b: "ids_bounded st" by (simp add: wf_store_def)
  then have unused: "\<forall>w \<in> set (votes st). vote_item w \<noteq> oid_counter st"
    by (auto simp: ids_bounded_def)
  {
    assume "verrs = [] \<and> community \<in> set (communities st)"
    then have ok: "verrs = []" "community \<in> set (communities st)" by simp_all
    from create_post_result [OF b ok, of user now title content]
    show "\<exists>s q. create_post st user now verrs title content community = (s, Res_post q)"
      by blast
  }
  {
    assume "verrs = [] \<and> idp \<in> Some ` post_id ` set (posts st)"
    then have v: "verrs = []" and "\<exists>q. Post_findById st idp = Inr (Some q)"
      by (simp_all add: Post_findById_resolves)
    then obtain q where q: "Post_findById st idp = Inr (Some q)" by blast
    from create_comment_result [OF b v q, of user now content]
    show "\<exists>s d. create_comment st user now verrs idp content = (s, Res_commentObj d True 1)"
      by blast
  }
  {
    assume run: "create_post st user now verrs title content community = (st', Res_post p)"
    have ok: "verrs = []" "community \<in> set (communities st)"
      using run by (auto simp: create_post_def split: if_splits)
    note res = create_post_result [OF b ok, of user now title content]
    from run res have p: "p = \<lparr>post_id = oid_counter st, post_title = title,
          post_content = content, post_author = user, post_community = community,
          post_votes = 1, post_isEdited = False, post_createdAt = now\<rparr>"
      and st': "posts st' = posts st @ [p]"
        "votes st' = votes st @ [\<lparr>vote_id = Suc (oid_counter st), vote_user = user,
          vote_item = oid_counter st, vote_itemType = ''post'', vote_value = 1,
          vote_createdAt = now\<rparr>]"
      by auto
    from p st'(1) show "p \<in> set (posts st')" "post_author p = user" "post_votes p = 1"
      by simp_all
    from unused show "votes_for st' (post_id p) ''post'' =
              [\<lparr>vote_id = Suc (post_id p), vote_user = user, vote_item = post_id p,
                vote_itemType = ''post'', vote_value = 1, vote_createdAt = now\<rparr>]"
      unfolding votes_for_def st'(2) by (simp add: p filter_empty_conv)
  }
  {
    assume run: "create_comment st user now verrs idp content = (st', Res_commentObj c a n)"
    have "verrs = [] \<and> (\<exists>q. Post_findById st idp = Inr (Some q))"
      using run
      by (auto simp: create_comment_def catch_post_def split: if_splits sum.splits option.splits)
    then obtain q where ok: "verrs = []" "Post_findById st idp = Inr (Some q)" by auto
    note res = create_comment_result [OF b ok, of user now content]
    from run res have c: "c = \<lparr>comment_id = oid_counter st, comment_content = content,
          comment_author = user, comment_post = post_id q, comment_votes = 1,
          comment_isEdited = False, comment_createdAt = now\<rparr>"
      and st': "comments st' = comments st @ [c]"
        "votes st' = votes st @ [\<lparr>vote_id = Suc (oid_counter st), vote_user = user,
          vote_item = oid_counter st, vote_itemType = ''comment'', vote_value = 1,
          vote_createdAt = now\<rparr>]"
      by auto
    from c st'(1) show "c \<in> set (comments st')" "comment_author c = user" "comment_votes c = 1"
      by simp_all
    from unused show "votes_for st' (comment_id c) ''comment'' =
              [\<lparr>vote_id = Suc (comment_id c), vote_user = user, vote_item = comment_id c,
                vote_itemType = ''comment'', vote_value = 1, vote_createdAt = now\<rparr>]"
      unfolding votes_for_def st'(2) by (simp add: c filter_empty_conv)
  }
qed

theorem creation_self_upvote_witness:
  "wf_store (init_state [''general'']) \<and>
   ''general'' \<in> set (communities (init_state [''general''])) \<and>
   snd (create_post (init_state [''general'']) 1 100 [] ''t'' ''c'' ''general'') =
     Res_post \<lparr>post_id = 0, post_title = ''t'', post_content = ''c'', post_author = 1,
       post_community = ''general'', post_votes = 1, post_isEdited = False,
       post_createdAt = 100\<rparr> \<and>
   votes_for (fst (create_post (init_state [''general'']) 1 100 [] ''t'' ''c'' ''general''))
       0 ''post'' =
     [\<lparr>vote_id = 1, vote_user = 1, vote_item = 0, vote_itemType = ''post'', vote_value = 1,
       vote_createdAt = 100\<rparr>] \<and>
   wf_store (fst (create_post (init_state [''general'']) 1 100 [] ''t'' ''c'' ''general'')) \<and>
   Some 0 \<in> Some ` post_id `
     set (posts (fst (create_post (init_state [''general'']) 1 100 [] ''t'' ''c'' ''general''))) \<and>
   snd (create_comment
          (fst (create_post (init_state [''general'']) 1 100 [] ''t'' ''c'' ''general''))
          3 101 [] (Some 0) ''hi'') =
     Res_commentObj \<lparr>comment_id = 2, comment_content = ''hi'', comment_author = 3,
       comment_post = 0, comment_votes = 1, comment_isEdited = False,
       comment_createdAt = 101\<rparr> True 1 \<and>
   map (\<lambda>d. (comment_id d, comment_author d, comment_votes d))
     (comments (fst (create_comment
          (fst (create_post (init_state [''general'']) 1 100 [] ''t'' ''c'' ''general''))
          3 101 [] (Some 0) ''hi''))) = [(2, 3, 1)] \<and>
   votes_for (fst (create_comment
          (fst (create_post (init_state [''general'']) 1 100 [] ''t'' ''c'' ''general''))
          3 101 [] (Some 0) ''hi'')) 2 ''comment'' =
     [\<lparr>vote_id = 3, vote_user = 3, vote_item = 2, vote_itemType = ''comment'',
       vote_value = 1, vote_createdAt = 101\<rparr>]"
proof -
  define I where "I = init_state [''general'']"
  define P where "P = \<lparr>post_id = 0, post_title = ''t'', post_content = ''c'',
       post_author = 1, post_community = ''general'', post_votes = 1, post_isEdited = False,
       post_createdAt = 100\<rparr>"
  define S where "S = fst (create_post I 1 100 [] ''t'' ''c'' ''general'')"
  define C where "C = \<lparr>comment_id = 2, comment_content = ''hi'', comment_author = 3,
       comment_post = 0, comment_votes = 1, comment_isEdited = False,
       comment_createdAt = 101\<rparr>"
  define S' where "S' = fst (create_comment S 3 101 [] (Some 0) ''hi'')"
  have wf: "wf_store I" unfolding I_def by code_simp
  have com: "''general'' \<in> set (communities I)" unfolding I_def by code_simp
  have res: "snd (create_post I 1 100 [] ''t'' ''c'' ''general'') = Res_post P"
    unfolding I_def P_def by code_simp
  then have run: "create_post I 1 100 [] ''t'' ''c'' ''general'' = (S, Res_post P)"
    by (simp add: prod_eq_iff S_def)
  from creation_self_upvote [OF wf, where user = 1 and now = 100 and verrs = "[]"
      and title = "''t''" and content = "''c''" and community = "''general''"
      and st' = S and p = P] run
  have pv: "votes_for S (post_id P) ''post'' =
      [\<lparr>vote_id = Suc (post_id P), vote_user = 1, vote_item = post_id P,
        vote_itemType = ''post'', vote_value = 1, vote_createdAt = 100\<rparr>]"
    by blast
  have wfS: "wf_store S" unfolding S_def I_def by code_simp
  have resolves: "Some 0 \<in> Some ` post_id ` set (posts S)" unfolding S_def I_def by code_simp
  have cres: "snd (create_comment S 3 101 [] (Some 0) ''hi'') = Res_commentObj C True 1"
    unfolding S_def I_def C_def by code_simp
  then have crun: "create_comment S 3 101 [] (Some 0) ''hi'' = (S', Res_commentObj C True 1)"
    by (simp add: prod_eq_iff S'_def)
  have stored: "map (\<lambda>d. (comment_id d, comment_author d, comment_votes d)) (comments S') =
      [(2, 3, 1)]"
    unfolding S'_def S_def I_def by code_simp
  from creation_self_upvote [OF wfS, where user = 3 and now = 101 and verrs = "[]"
      and idp = "Some 0" and content = "''hi''" and st' = S' and c = C and a = True
      and n = 1] crun
  have cv: "votes_for S' (comment_id C) ''comment'' =
      [\<lparr>vote_id = Suc (comment_id C), vote_user = 3, vote_item = comment_id C,
        vote_itemType = ''comment'', vote_value = 1, vote_createdAt = 101\<rparr>]"
    by blast
  from pv have pv': "votes_for S 0 ''post'' =
      [\<lparr>vote_id = 1, vote_user = 1, vote_item = 0, vote_itemType = ''post'', vote_value = 1,
        vote_createdAt = 100\<rparr>]"
    by (simp add: P_def)
  from cv have cv': "votes_for S' 2 ''comment'' =
      [\<lparr>vote_id = 3, vote_user = 3, vote_item = 2, vote_itemType = ''comment'',
        vote_value = 1, vote_createdAt = 101\<rparr>]"
    by (simp add: C_def)
  from wf com res pv' wfS resolves cres stored cv' show ?thesis
    unfolding S'_def S_def I_def P_def C_def by blast
qed

section \<open>What a vote leaves unchanged\<close>

lemma cast_vote_votes_frame:
  assumes wf: "wf_store st" and ex: "ex = Vote_findOne st u i k"
    and cv: "cast_vote st u i k now t ex = Inr (st1, d)"
  shows "filter (\<lambda>w. \<not> (vote_user w = u \<and> vote_item w = i)) (votes st1) =
         filter (\<lambda>w. \<not> (vote_user w = u \<and> vote_item w = i)) (votes st)"
proof (cases ex)
  case None
  with cv show ?thesis
    by (auto simp: cast_vote_def Vote_insert_def Let_def split: if_splits)
next
  case (Some v)
  with ex have v: "v \<in> set (votes st)" "vote_user v = u" "vote_item v = i"
    using Vote_findOne_SomeD [of st u i k v] by simp_all
  from wf have d: "distinct (map vote_id (votes st))"
    by (simp add: wf_store_def ids_distinct_def)
  have other: "vote_id w \<noteq> vote_id v"
    if "w \<in> set (votes st)" "\<not> (vote_user w = u \<and> vote_item w = i)" for w
    using distinct_map_eqD [OF d that(1) v(1)] that(2) v by auto
  show ?thesis
  proof (cases "t = 0")
    case True
    with Some cv d have "votes st1 = filter (\<lambda>w. vote_id w \<noteq> vote_id v) (votes st)"
      by (auto simp: cast_vote_def Vote_remove_def delete_one_filter Let_def)
    then show ?thesis
      unfolding filter_filter using other by (auto intro: filter_cong)
  next
    case False
    with Some cv have st1: "votes st1 =
        map (\<lambda>w. if vote_id w = vote_id v then w\<lparr>vote_value := t\<rparr> else w) (votes st)"
      by (auto simp: cast_vote_def Vote_save_def Let_def split: sum.splits if_splits)
    have "filter (\<lambda>w. \<not> (vote_user w = u \<and> vote_item w = i))
            (map (\<lambda>w. if vote_id w = vote_id v then w\<lparr>vote_value := t\<rparr> else w) xs) =
          filter (\<lambda>w. \<not> (vote_user w = u \<and> vote_item w = i)) xs"
      if "set xs \<subseteq> set (votes st)" for xs
      using that
    proof (induction xs)
      case Nil
      then show ?case by simp
    next
      case (Cons a xs)
      with other [of a] v show ?case by auto
    qed
    with st1 show ?thesis by simp
  qed
qed

text \<open>
  Claim C10. A successful vote of user \<open>u\<close> on item \<open>i\<close>, answered with the score \<open>n\<close>,
  changes among the items only the score of item \<open>i\<close>, which becomes \<open>n\<close>: every other
  field of it and every other post and comment keep their values. Among the Vote
  records, those of every other pair of a user and an item are the same before and after.
\<close>

theorem vote_frame:
  assumes "wf_store st"
  shows "(vote_post st u now idp t = (st', Res_votes n) \<longrightarrow>
            (\<exists>i. idp = Some i \<and>
               posts st' = map (\<lambda>q. if post_id q = i then q\<lparr>post_votes := n\<rparr> else q) (posts st) \<and>
               comments st' = comments st \<and> communities st' = communities st \<and>
               filter (\<lambda>w. \<not> (vote_user w = u \<and> vote_item w = i)) (votes st') =
               filter (\<lambda>w. \<not> (vote_user w = u \<and> vote_item w = i)) (votes st))) \<and>
         (vote_comment st u now idp t = (st', Res_votes n) \<longrightarrow>
            (\<exists>i. idp = Some i \<and>
               comments st' =
                 map (\<lambda>c. if comment_id c = i then c\<lparr>comment_votes := n\<rparr> else c) (comments st) \<and>
               posts st' = posts st \<and> communities st' = communities st \<and>
               filter (\<lambda>w. \<not> (vote_user w = u \<and> vote_item w = i)) (votes st') =
               filter (\<lambda>w. \<not> (vote_user w = u \<and> vote_item w = i)) (votes st)))"
proof (intro conjI impI)
  assume run: "vote_post st u now idp t = (st', Res_votes n)"
  then obtain p ex where look: "vote_post_lookup st u idp t = Inr (p, ex)"
    by (cases "vote_post_lookup st u idp t")
      (auto simp: vote_post_def vote_post_lookup_def catch_post_def
        split: if_splits sum.splits option.splits)
  then have ex: "ex = Vote_findOne st u (post_id p) ''post''"
    and p: "Post_findById st idp = Inr (Some p)"
    by (auto simp: vote_post_lookup_def split: if_splits sum.splits option.splits)
  from run look obtain st1 d where cv: "cast_vote st u (post_id p) ''post'' now t ex = Inr (st1, d)"
    by (cases "cast_vote st u (post_id p) ''post'' now t ex")
      (auto simp: vote_post_def vote_post_apply_def catch_post_def split: if_splits)
  from run look cv have n: "n = post_votes p + d"
    and st': "st' = st1\<lparr>posts := map (\<lambda>q. if post_id q = post_id p
          then q\<lparr>post_votes := post_votes p + d\<rparr> else q) (posts st1)\<rparr>"
    by (auto simp: vote_post_def vote_post_apply_def Post_save_votes_def catch_post_def Let_def
        split: if_splits)
  from cast_vote_frame [OF cv] cast_vote_votes_frame [OF assms ex cv]
    Post_findById_SomeD [OF p] n
  show "\<exists>i. idp = Some i \<and>
               posts st' = map (\<lambda>q. if post_id q = i then q\<lparr>post_votes := n\<rparr> else q) (posts st) \<and>
               comments st' = comments st \<and> communities st' = communities st \<and>
               filter (\<lambda>w. \<not> (vote_user w = u \<and> vote_item w = i)) (votes st') =
               filter (\<lambda>w. \<not> (vote_user w = u \<and> vote_item w = i)) (votes st)"
    unfolding st' by simp
next
  assume run: "vote_comment st u now idp t = (st', Res_votes n)"
  then obtain c ex where look: "vote_comment_lookup st u idp t = Inr (c, ex)"
    by (cases "vote_comment_lookup st u idp t")
      (auto simp: vote_comment_def vote_comment_lookup_def catch_comment_def
        split: if_splits sum.splits option.splits)
  then have ex: "ex = Vote_findOne st u (comment_id c) ''comment''"
    and c: "Comment_findById st idp = Inr (Some c)"
    by (auto simp: vote_comment_lookup_def split: if_splits sum.splits option.splits)
  from run look obtain st1 d
    where cv: "cast_vote st u (comment_id c) ''comment'' now t ex = Inr (st1, d)"
    by (cases "cast_vote st u (comment_id c) ''comment'' now t ex")
      (auto simp: vote_comment_def vote_comment_apply_def catch_comment_def split: if_splits)
  from run look cv have n: "n = comment_votes c + d"
    and st': "st' = st1\<lparr>comments := map (\<lambda>q. if comment_id q = comment_id c
          then q\<lparr>comment_votes := comment_votes c + d\<rparr> else q) (comments st1)\<rparr>"
    by (auto simp: vote_comment_def vote_comment_apply_def Comment_save_votes_def
        catch_comment_def Let_def split: if_splits)
  from cast_vote_frame [OF cv] cast_vote_votes_frame [OF assms ex cv]
    Comment_findById_SomeD [OF c] n
  show "\<exists>i. idp = Some i \<and>
               comments st' =
                 map (\<lambda>c. if comment_id c = i then c\<lparr>comment_votes := n\<rparr> else c) (comments st) \<and>
               posts st' = posts st \<and> communities st' = communities st \<and>
               filter (\<lambda>w. \<not> (vote_user w = u \<and> vote_item w = i)) (votes st') =
               filter (\<lambda>w. \<not> (vote_user w = u \<and> vote_item w = i)) (votes st)"
    unfolding st' by simp
qed


theorem vote_frame_witness:
  "wf_store (run_sequential (init_state [''general''])
      [Create_post 1 100 [] ''t'' ''c'' ''general'', Vote_post 2 101 (Some 0) 1,
       Create_post 2 102 [] ''t2'' ''c2'' ''general'']) \<and>
   snd (vote_post (run_sequential (init_state [''general''])
      [Create_post 1 100 [] ''t'' ''c'' ''general'', Vote_post 2 101 (Some 0) 1,
       Create_post 2 102 [] ''t2'' ''c2'' ''general'']) 2 7 (Some 0) (- 1)) = Res_votes 0 \<and>
   posts (fst (vote_post (run_sequential (init_state [''general''])
      [Create_post 1 100 [] ''t'' ''c'' ''general'', Vote_post 2 101 (Some 0) 1,
       Create_post 2 102 [] ''t2'' ''c2'' ''general'']) 2 7 (Some 0) (- 1))) =
     map (\<lambda>q. if post_id q = 0 then q\<lparr>post_votes := 0\<rparr> else q)
       (posts (run_sequential (init_state [''general''])
          [Create_post 1 100 [] ''t'' ''c'' ''general'', Vote_post 2 101 (Some 0) 1,
           Create_post 2 102 [] ''t2'' ''c2'' ''general''])) \<and>
   filter (\<lambda>w. \<not> (vote_user w = 2 \<and> vote_item w = 0))
     (votes (fst (vote_post (run_sequential (init_state [''general''])
        [Create_post 1 100 [] ''t'' ''c'' ''general'', Vote_post 2 101 (Some 0) 1,
         Create_post 2 102 [] ''t2'' ''c2'' ''general'']) 2 7 (Some 0) (- 1)))) =
   filter (\<lambda>w. \<not> (vote_user w = 2 \<and> vote_item w = 0))
     (votes (run_sequential (init_state [''general''])
        [Create_post 1 100 [] ''t'' ''c'' ''general'', Vote_post 2 101 (Some 0) 1,
         Create_post 2 102 [] ''t2'' ''c2'' ''general'']))"
proof -
  define S where "S = run_sequential (init_state [''general''])
      [Create_post 1 100 [] ''t'' ''c'' ''general'', Vote_post 2 101 (Some 0) 1,
       Create_post 2 102 [] ''t2'' ''c2'' ''general'']"
  have wf: "wf_store S" unfolding S_def by code_simp
  have res: "snd (vote_post S 2 7 (Some 0) (- 1)) = Res_votes 0" unfolding S_def by code_simp
  then have run: "vote_post S 2 7 (Some 0) (- 1) = (fst (vote_post S 2 7 (Some 0) (- 1)), Res_votes 0)"
    by (simp add: prod_eq_iff)
  from vote_frame [OF wf, of 2 7 "Some 0" "- 1" _ 0] run
  have "\<exists>i. Some 0 = Some i \<and>
      posts (fst (vote_post S 2 7 (Some 0) (- 1))) =
        map (\<lambda>q. if post_id q = i then q\<lparr>post_votes := 0\<rparr> else q) (posts S) \<and>
      comments (fst (vote_post S 2 7 (Some 0) (- 1))) = comments S \<and>
      communities (fst (vote_post S 2 7 (Some 0) (- 1))) = communities S \<and>
      filter (\<lambda>w. \<not> (vote_user w = 2 \<and> vote_item w = i))
        (votes (fst (vote_post S 2 7 (Some 0) (- 1)))) =
      filter (\<lambda>w. \<not> (vote_user w = 2 \<and> vote_item w = i)) (votes S)"
    by blast
  then have "posts (fst (vote_post S 2 7 (Some 0) (- 1))) =
        map (\<lambda>q. if post_id q = 0 then q\<lparr>post_votes := 0\<rparr> else q) (posts S)"
    and "filter (\<lambda>w. \<not> (vote_user w = 2 \<and> vote_item w = 0))
        (votes (fst (vote_post S 2 7 (Some 0) (- 1)))) =
      filter (\<lambda>w. \<not> (vote_user w = 2 \<and> vote_item w = 0)) (votes S)"
    by auto
  with wf res show ?thesis unfolding S_def by blast
qed

section \<open>Deletion of an item\<close>

text \<open>
  What both delete handlers do achieve on a well-formed store: after a successful
  deletion no Vote record references the deleted item itself, and for a post no comment
  of it is left.
\<close>

lemma delete_removes_own_votes:
  assumes "wf_store st"
  shows "delete_post st user idp = (st', Res_message ''Post deleted'') \<Longrightarrow>
           \<exists>i. idp = Some i \<and> votes_for st' i ''post'' = [] \<and>
               i \<notin> post_id ` set (posts st') \<and> i \<notin> comment_post ` set (comments st')"
    and "delete_comment st user idp = (st', Res_message ''Comment deleted'') \<Longrightarrow>
           \<exists>i. idp = Some i \<and> votes_for st' i ''comment'' = [] \<and>
               i \<notin> comment_id ` set (comments st')"
proof -
  from assms have d: "ids_distinct st" by (simp add: wf_store_def)
  {
    assume run: "delete_post st user idp = (st', Res_message ''Post deleted'')"
    then obtain p where p: "Post_findById st idp = Inr (Some p)" and a: "post_author p = user"
      by (auto simp: delete_post_def catch_post_def split: sum.splits option.splits if_splits)
    from run delete_post_result [OF d p a] Post_findById_SomeD [OF p]
    show "\<exists>i. idp = Some i \<and> votes_for st' i ''post'' = [] \<and>
               i \<notin> post_id ` set (posts st') \<and> i \<notin> comment_post ` set (comments st')"
      by (auto simp: votes_for_def filter_empty_conv)
  }
  {
    assume run: "delete_comment st user idp = (st', Res_message ''Comment deleted'')"
    then obtain c where c: "Comment_findById st idp = Inr (Some c)"
      and a: "comment_author c = user"
      by (auto simp: delete_comment_def catch_comment_def
          split: sum.splits option.splits if_splits)
    from run delete_comment_result [OF d c a] Comment_findById_SomeD [OF c]
    show "\<exists>i. idp = Some i \<and> votes_for st' i ''comment'' = [] \<and>
               i \<notin> comment_id ` set (comments st')"
      by (auto simp: votes_for_def filter_empty_conv)
  }
qed

text \<open>
  Claim C3 at a concrete store: user 1 creates a post (id 0), user 5 comments on it (the
  comment has id 2, the author's vote id 3), user 6 upvotes the comment, user 1 deletes
  the post. The deletion succeeds and removes the post and its comment; the two Vote
  records that reference the comment stay in the collection.
\<close>

theorem delete_post_leaves_comment_votes:
  "snd (handle (run_sequential (init_state [''general''])
      [Create_post 1 100 [] ''t'' ''c'' ''general'', Create_comment 5 101 [] (Some 0) ''hi'',
       Vote_comment 6 102 (Some 2) 1]) (Delete_post 1 (Some 0))) = Res_message ''Post deleted'' \<and>
   posts (run_sequential (init_state [''general''])
      [Create_post 1 100 [] ''t'' ''c'' ''general'', Create_comment 5 101 [] (Some 0) ''hi'',
       Vote_comment 6 102 (Some 2) 1, Delete_post 1 (Some 0)]) = [] \<and>
   comments (run_sequential (init_state [''general''])
      [Create_post 1 100 [] ''t'' ''c'' ''general'', Create_comment 5 101 [] (Some 0) ''hi'',
       Vote_comment 6 102 (Some 2) 1, Delete_post 1 (Some 0)]) = [] \<and>
   votes (run_sequential (init_state [''general''])
      [Create_post 1 100 [] ''t'' ''c'' ''general'', Create_comment 5 101 [] (Some 0) ''hi'',
       Vote_comment 6 102 (Some 2) 1, Delete_post 1 (Some 0)]) =
     [\<lparr>vote_id = 3, vote_user = 5, vote_item = 2, vote_itemType = ''comment'',
        vote_value = 1, vote_createdAt = 101\<rparr>,
      \<lparr>vote_id = 4, vote_user = 6, vote_item = 2, vote_itemType = ''comment'',
        vote_value = 1, vote_createdAt = 102\<rparr>]"
  by code_simp

section \<open>A duplicate-key error on the insert of a vote\<close>

text \<open>
  Claim C4, as stated, fails. Two requests of user 2 on post 0 overlap, an upvote and a
  downvote: both read that the user has no vote, the first inserts its vote, the insert
  of the second is rejected by the unique index. The second request is answered with
  \<^verbatim>\<open>500 Server error\<close>, and the store is what the first request alone leaves: the handler
  has not read the vote again and has not applied the downvote to it.
\<close>

theorem duplicate_vote_counterexample:
  "run_schedule 7 [0, 1, 0, 1]
     (run_sequential (init_state [''general'']) [Create_post 1 100 [] ''t'' ''c'' ''general''],
      [Start 2 (Some 0) 1, Start 2 (Some 0) (- 1)]) =
   (run_sequential (init_state [''general''])
      [Create_post 1 100 [] ''t'' ''c'' ''general'', Vote_post 2 7 (Some 0) 1],
    [Finished (Res_votes 2), Finished (Res_status 500 ''Server error'')]) \<and>
   cast_vote (run_sequential (init_state [''general''])
      [Create_post 1 100 [] ''t'' ''c'' ''general'', Vote_post 2 7 (Some 0) 1])
      2 0 ''post'' 7 (- 1) None = Inl DuplicateKey \<and>
   map vote_value (votes (run_sequential (init_state [''general''])
      [Create_post 1 100 [] ''t'' ''c'' ''general'', Vote_post 2 7 (Some 0) 1])) = [1, 1]"
  by code_simp

text \<open>
  Claim C4, amended. When a vote handler has read that the user has no vote on the item,
  the request is an upvote or a downvote, and at the time of the insert a Vote of the
  user on the item is stored, the insert fails on the unique index, the handler's
  \<^verbatim>\<open>catch\<close> block answers \<^verbatim>\<open>500 Server error\<close>, and the store is left as it was. Nothing is
  retried.
\<close>

theorem duplicate_vote_surfaces:
  assumes "t = 1 \<or> t = - 1"
  shows "((\<exists>w \<in> set (votes st). vote_user w = u \<and> vote_item w = post_id p) \<longrightarrow>
            vote_post_apply st u now t (p, None) = (st, Res_status 500 ''Server error'')) \<and>
         ((\<exists>w \<in> set (votes st). vote_user w = u \<and> vote_item w = comment_id c) \<longrightarrow>
            vote_comment_apply st u now t (c, None) = (st, Res_status 500 ''Server error''))"
  using assms
  by (auto simp: vote_post_apply_def vote_comment_apply_def cast_vote_def Vote_insert_def
      Vote_validate_def catch_post_def catch_comment_def)

theorem duplicate_vote_surfaces_witness:
  "((- 1::int) = 1 \<or> (- 1::int) = - 1) \<and>
   (\<exists>w \<in> set (votes (run_sequential (init_state [''general''])
      [Create_post 1 100 [] ''t'' ''c'' ''general'', Vote_post 2 7 (Some 0) 1])). vote_user w = 2 \<and> vote_item w = 0) \<and>
   vote_post_apply (run_sequential (init_state [''general''])
      [Create_post 1 100 [] ''t'' ''c'' ''general'', Vote_post 2 7 (Some 0) 1]) 2 7 (- 1)
      (\<lparr>post_id = 0, post_title = ''t'', post_content = ''c'', post_author = 1,
        post_community = ''general'', post_votes = 1, post_isEdited = False,
        post_createdAt = 100\<rparr>, None) =
     (run_sequential (init_state [''general'']) [Create_post 1 100 [] ''t'' ''c'' ''general'', Vote_post 2 7 (Some 0) 1],
      Res_status 500 ''Server error'')"
proof -
  define S where "S = run_sequential (init_state [''general''])
      [Create_post 1 100 [] ''t'' ''c'' ''general'', Vote_post 2 7 (Some 0) 1]"
  define P where "P = \<lparr>post_id = 0, post_title = ''t'', post_content = ''c'', post_author = 1,
        post_community = ''general'', post_votes = 1, post_isEdited = False,
        post_createdAt = 100\<rparr>"
  have t: "(- 1::int) = 1 \<or> (- 1::int) = - 1" by simp
  have w: "\<exists>w \<in> set (votes S). vote_user w = 2 \<and> vote_item w = post_id P"
    unfolding S_def P_def by code_simp
  from duplicate_vote_surfaces [OF t, of S 2 P 7] w
  have "vote_post_apply S 2 7 (- 1) (P, None) = (S, Res_status 500 ''Server error'')" by blast
  moreover from w have "\<exists>w \<in> set (votes S). vote_user w = 2 \<and> vote_item w = 0"
    by (simp add: P_def)
  ultimately show ?thesis using t unfolding S_def P_def by blast
qed

section \<open>Overlapping vote requests\<close>






end
